theory Spec2Isabelle
  imports Complex_Main "HOL-Library.Sublist"
begin

section \<open>Strings and character classes\<close>

text \<open>
  A JavaScript string is a sequence of UTF-16 code units. A code unit is modelled as a
  natural number and a string as a list of them, so that the output of percent-decoding
  (which can produce any code unit) has a value. \<open>asc\<close> turns an ASCII literal into
  such a string.
\<close>

type_synonym ustring = "nat list"

definition asc :: "string \<Rightarrow> ustring" where
  "asc s = map of_char s"

definition isUpper :: "nat \<Rightarrow> bool" where
  "isUpper c = (0x41 \<le> c \<and> c \<le> 0x5A)"

definition isLower :: "nat \<Rightarrow> bool" where
  "isLower c = (0x61 \<le> c \<and> c \<le> 0x7A)"

definition isDigit :: "nat \<Rightarrow> bool" where
  "isDigit c = (0x30 \<le> c \<and> c \<le> 0x39)"

text \<open>The regular-expression class \<open>\w\<close> (no \<open>u\<close> or \<open>i\<close> flag): \<open>[A-Za-z0-9_]\<close>.\<close>

definition isWord :: "nat \<Rightarrow> bool" where
  "isWord c = (isUpper c \<or> isLower c \<or> isDigit c \<or> c = 0x5F)"

text \<open>
  The class \<open>\s\<close>, which is also what \<open>String.prototype.trim\<close> removes and what
  \<open>Number\<close> skips: ECMAScript WhiteSpace (TAB, VT, FF, SP, NBSP, ZWNBSP and the
  space separators of Unicode) and LineTerminator (LF, CR, LS, PS).
\<close>

definition isSpace :: "nat \<Rightarrow> bool" where
  "isSpace c = (c = 0x09 \<or> c = 0x0A \<or> c = 0x0B \<or> c = 0x0C \<or> c = 0x0D \<or> c = 0x20
     \<or> c = 0xA0 \<or> c = 0x1680 \<or> (0x2000 \<le> c \<and> c \<le> 0x200A) \<or> c = 0x2028
     \<or> c = 0x2029 \<or> c = 0x202F \<or> c = 0x205F \<or> c = 0x3000 \<or> c = 0xFEFF)"

definition trim :: "ustring \<Rightarrow> ustring" where
  "trim s = rev (dropWhile isSpace (rev (dropWhile isSpace s)))"

text \<open>\<open>s.startsWith(p)\<close>, \<open>s.endsWith(p)\<close> and \<open>s.includes(p)\<close>.\<close>

definition startsWith :: "ustring \<Rightarrow> ustring \<Rightarrow> bool" where
  "startsWith s p = (take (length p) s = p)"

definition endsWith :: "ustring \<Rightarrow> ustring \<Rightarrow> bool" where
  "endsWith s p = (length p \<le> length s \<and> drop (length s - length p) s = p)"

fun includesStr :: "ustring \<Rightarrow> ustring \<Rightarrow> bool" where
  "includesStr [] p = (p = [])"
| "includesStr (c # cs) p = (startsWith (c # cs) p \<or> includesStr cs p)"

text \<open>
  \<open>s.split(sep)\<close> for a one-character separator: the pieces between the separators,
  empty pieces included; the empty string gives one empty piece.
\<close>

fun splitOn :: "nat \<Rightarrow> ustring \<Rightarrow> ustring list" where
  "splitOn sep [] = [] # []"
| "splitOn sep (c # cs) =
     (if c = sep then [] # splitOn sep cs
      else (case splitOn sep cs of [] \<Rightarrow> [c] # [] | w # ws \<Rightarrow> (c # w) # ws))"

text \<open>\<open>parts.join(sep)\<close> for a one-character separator.\<close>

fun joinWith :: "nat \<Rightarrow> ustring list \<Rightarrow> ustring" where
  "joinWith sep [] = []"
| "joinWith sep [w] = w"
| "joinWith sep (w # v # ws) = w @ sep # joinWith sep (v # ws)"

text \<open>
  A JavaScript value as far as the guards look at it: they only ask whether it is a
  string, and which.
\<close>

datatype jsvalue = JString ustring | JNumber int | JBoolean bool | JNull | JUndefined

section \<open>Attribute-name guard (spotlight-service: sanitizeAttributes)\<close>

text \<open>The specification calls \<open>sanitizeAttributes\<close> \<open>sanitizeTokens\<close>.\<close>

text \<open>
  \<open>VALID_ATTRIBUTE_PATTERN = /^[a-zA-Z_][a-zA-Z0-9_]*$/\<close>, applied with \<open>test\<close>: one
  character of the first class, then any number of the second, up to the end of the
  input (without the \<open>m\<close> flag \<open>$\<close> is the end of the input only).
\<close>

fun VALID_ATTRIBUTE_PATTERN :: "ustring \<Rightarrow> bool" where
  "VALID_ATTRIBUTE_PATTERN [] = False"
| "VALID_ATTRIBUTE_PATTERN (c # cs) =
     ((isLower c \<or> isUpper c \<or> c = 0x5F)
      \<and> list_all (\<lambda>d. isLower d \<or> isUpper d \<or> isDigit d \<or> d = 0x5F) cs)"

text \<open>
  The filter callback of \<open>sanitizeAttributes\<close>: a falsy or non-string element is
  dropped, then one that fails the pattern (the warning it logs stays local).
\<close>

fun keepAttribute :: "jsvalue \<Rightarrow> bool" where
  "keepAttribute (JString attr) =
     (if attr = [] then False
      else if \<not> VALID_ATTRIBUTE_PATTERN attr then False
      else True)"
| "keepAttribute _ = False"

definition sanitizeAttributes :: "jsvalue list \<Rightarrow> jsvalue list" where
  "sanitizeAttributes attrs = filter keepAttribute attrs"

text \<open>
  The identifier grammar of the specification, \<open>^[A-Za-z_][A-Za-z0-9_]*$\<close>, as a
  grammar: a letter or underscore, extended on the right by letters, digits and
  underscores.
\<close>

inductive attributeToken :: "ustring \<Rightarrow> bool" where
  ident_start: "isUpper c \<or> isLower c \<or> c = 0x5F \<Longrightarrow> attributeToken [c]"
| ident_extend: "attributeToken s \<Longrightarrow> isUpper c \<or> isLower c \<or> isDigit c \<or> c = 0x5F
     \<Longrightarrow> attributeToken (s @ [c])"

section \<open>Numbers read from strings\<close>

text \<open>
  \<open>Number(value)\<close> applied to a string reads it with the StringNumericLiteral grammar
  of ECMAScript: surrounding white space is skipped; the empty rest is 0; a binary,
  octal or hexadecimal integer has no sign; a decimal literal has an optional sign, an
  integer part and a fraction of which one may be missing, and an optional exponent;
  \<open>Infinity\<close> may carry a sign; everything else is \<open>NaN\<close>. The result is kept as the
  mathematical value of the literal: its rounding to a double and the sign of zero are
  not represented.
\<close>

datatype jsnumber = NaN | Infinite bool | Finite rat

text \<open>\<open>Infinite True\<close> is \<open>-Infinity\<close>, \<open>Infinite False\<close> is \<open>Infinity\<close>.\<close>

fun digitsValue :: "nat \<Rightarrow> nat \<Rightarrow> ustring \<Rightarrow> nat" where
  "digitsValue base acc [] = acc"
| "digitsValue base acc (c # cs) =
     digitsValue base
       (acc * base + (if isDigit c then c - 0x30
                      else if isLower c then c - 0x61 + 10
                      else c - 0x41 + 10)) cs"

definition isHexDigit :: "nat \<Rightarrow> bool" where
  "isHexDigit c = (isDigit c \<or> (0x41 \<le> c \<and> c \<le> 0x46) \<or> (0x61 \<le> c \<and> c \<le> 0x66))"

definition pow10 :: "int \<Rightarrow> rat" where
  "pow10 e = (if 0 \<le> e then 10 ^ nat e else 1 / 10 ^ nat (- e))"

text \<open>The exponent part: nothing, or \<open>e\<close>/\<open>E\<close>, an optional sign and digits.\<close>

definition parseExponent :: "ustring \<Rightarrow> int option" where
  "parseExponent s =
     (case s of
        [] \<Rightarrow> Some 0
      | c # r \<Rightarrow>
          if c = 0x65 \<or> c = 0x45 then
            (case r of
               [] \<Rightarrow> None
             | d # ds \<Rightarrow>
                 if d = 0x2B then
                   (if ds \<noteq> [] \<and> list_all isDigit ds
                    then Some (int (digitsValue 10 0 ds)) else None)
                 else if d = 0x2D then
                   (if ds \<noteq> [] \<and> list_all isDigit ds
                    then Some (- int (digitsValue 10 0 ds)) else None)
                 else if list_all isDigit (d # ds)
                   then Some (int (digitsValue 10 0 (d # ds))) else None)
          else None)"

text \<open>StrUnsignedDecimalLiteral; \<open>None\<close> when the string is not one.\<close>

definition parseUnsignedDecimal :: "ustring \<Rightarrow> jsnumber option" where
  "parseUnsignedDecimal s =
     (if s = asc ''Infinity'' then Some (Infinite False)
      else
        let ip = takeWhile isDigit s; r = dropWhile isDigit s in
        (case r of
           [] \<Rightarrow> if ip = [] then None else Some (Finite (of_nat (digitsValue 10 0 ip)))
         | c # r1 \<Rightarrow>
             if c = 0x2E then
               (let fp = takeWhile isDigit r1; r2 = dropWhile isDigit r1 in
                if ip = [] \<and> fp = [] then None
                else (case parseExponent r2 of
                        None \<Rightarrow> None
                      | Some e \<Rightarrow>
                          Some (Finite (of_nat (digitsValue 10 0 (ip @ fp))
                                         * pow10 (e - int (length fp))))))
             else if ip = [] then None
             else (case parseExponent r of
                     None \<Rightarrow> None
                   | Some e \<Rightarrow> Some (Finite (of_nat (digitsValue 10 0 ip) * pow10 e)))))"

definition negate :: "jsnumber \<Rightarrow> jsnumber" where
  "negate n = (case n of NaN \<Rightarrow> NaN | Infinite b \<Rightarrow> Infinite (\<not> b) | Finite v \<Rightarrow> Finite (- v))"

text \<open>NonDecimalIntegerLiteral: \<open>0b\<close>, \<open>0o\<close> or \<open>0x\<close> and at least one digit of the base.\<close>

definition parseNonDecimal :: "ustring \<Rightarrow> jsnumber option" where
  "parseNonDecimal s =
     (case s of
        z # p # ds \<Rightarrow>
          if z = 0x30 \<and> ds \<noteq> [] then
            (if (p = 0x62 \<or> p = 0x42) \<and> list_all (\<lambda>c. c = 0x30 \<or> c = 0x31) ds
               then Some (Finite (of_nat (digitsValue 2 0 ds)))
             else if (p = 0x6F \<or> p = 0x4F) \<and> list_all (\<lambda>c. 0x30 \<le> c \<and> c \<le> 0x37) ds
               then Some (Finite (of_nat (digitsValue 8 0 ds)))
             else if (p = 0x78 \<or> p = 0x58) \<and> list_all isHexDigit ds
               then Some (Finite (of_nat (digitsValue 16 0 ds)))
             else None)
          else None
      | _ \<Rightarrow> None)"

definition Number :: "ustring \<Rightarrow> jsnumber" where
  "Number str =
     (let t = trim str in
      if t = [] then Finite 0
      else (case parseNonDecimal t of
              Some n \<Rightarrow> n
            | None \<Rightarrow>
                (case (if hd t = 0x2B then parseUnsignedDecimal (tl t)
                       else if hd t = 0x2D then map_option negate (parseUnsignedDecimal (tl t))
                       else parseUnsignedDecimal t) of
                   Some n \<Rightarrow> n
                 | None \<Rightarrow> NaN)))"

definition isNaN :: "jsnumber \<Rightarrow> bool" where
  "isNaN n = (n = NaN)"

section \<open>Metadata values (spotlight-service: parseSpotlightValue)\<close>

text \<open>
  The specification calls \<open>parseSpotlightValue\<close> \<open>decodeMetadataValue\<close>. The values
  it returns: null, a list of strings, a string, a number.
\<close>

datatype spotlight_value = SNull | SArray "ustring list" | SString ustring | SNumber jsnumber

text \<open>\<open>value.slice(1, -1)\<close>: without the first and the last character.\<close>

definition sliceInner :: "ustring \<Rightarrow> ustring" where
  "sliceInner s = take (length s - 2) (drop 1 s)"

text \<open>
  \<open>v.replace(/^"|"$/g, '')\<close>: a quote at the start is removed, and a quote at the end
  of what is left.
\<close>

definition stripQuotes :: "ustring \<Rightarrow> ustring" where
  "stripQuotes v =
     (let v1 = (case v of [] \<Rightarrow> [] | c # cs \<Rightarrow> if c = 0x22 then cs else v)
      in if v1 \<noteq> [] \<and> last v1 = 0x22 then butlast v1 else v1)"

definition parseSpotlightValue :: "ustring \<Rightarrow> spotlight_value" where
  "parseSpotlightValue v =
     (if v = asc ''(null)'' then SNull
      else if startsWith v [0x28] \<and> endsWith v [0x29] then
        (let inner = trim (sliceInner v) in
         if inner = [] then SArray []
         else SArray (map (\<lambda>x. stripQuotes (trim x)) (splitOn 0x2C inner)))
      else if startsWith v [0x22] \<and> endsWith v [0x22] then SString (sliceInner v)
      else (let num = Number v in
            if \<not> isNaN num then SNumber num else SString v))"

section \<open>UTF-8 and UTF-16\<close>

text \<open>A code point as UTF-16: one code unit, or a surrogate pair above the basic plane.\<close>

definition UTF16Encode :: "nat \<Rightarrow> ustring" where
  "UTF16Encode cp =
     (if cp < 0x10000 then [cp]
      else [0xD800 + (cp - 0x10000) div 0x400, 0xDC00 + (cp - 0x10000) mod 0x400])"

text \<open>
  \<open>buffer.toString('utf8')\<close> never fails: it decodes UTF-8 and puts the replacement
  character U+FFFD where the bytes are not UTF-8. The decoder is the one of the Encoding
  standard: a state of the code point collected so far, the number of continuation bytes
  still needed and the range allowed for the next byte.
\<close>

type_synonym utf8_state = "nat \<times> nat \<times> nat \<times> nat"

definition utf8Init :: utf8_state where
  "utf8Init = (0, 0, 0x80, 0xBF)"

text \<open>A byte met when no continuation is needed: what is emitted, and the next state.\<close>

definition utf8Lead :: "nat \<Rightarrow> ustring \<times> utf8_state" where
  "utf8Lead b =
     (if b \<le> 0x7F then ([b], utf8Init)
      else if 0xC2 \<le> b \<and> b \<le> 0xDF then ([], (b mod 0x20, 1, 0x80, 0xBF))
      else if 0xE0 \<le> b \<and> b \<le> 0xEF then
        ([], (b mod 0x10, 2, (if b = 0xE0 then 0xA0 else 0x80), (if b = 0xED then 0x9F else 0xBF)))
      else if 0xF0 \<le> b \<and> b \<le> 0xF4 then
        ([], (b mod 0x08, 3, (if b = 0xF0 then 0x90 else 0x80), (if b = 0xF4 then 0x8F else 0xBF)))
      else ([0xFFFD], utf8Init))"

fun utf8Decode :: "utf8_state \<Rightarrow> nat list \<Rightarrow> ustring" where
  "utf8Decode (cp, need, lo, hi) [] = (if need = 0 then [] else [0xFFFD])"
| "utf8Decode (cp, need, lo, hi) (b # bs) =
     (if need = 0 then
        (case utf8Lead b of (out, st) \<Rightarrow> out @ utf8Decode st bs)
      else if b < lo \<or> hi < b then
        (case utf8Lead b of (out, st) \<Rightarrow> 0xFFFD # out @ utf8Decode st bs)
      else if need = 1 then UTF16Encode (cp * 0x40 + b mod 0x40) @ utf8Decode utf8Init bs
      else utf8Decode (cp * 0x40 + b mod 0x40, need - 1, 0x80, 0xBF) bs)"

definition toStringUtf8 :: "nat list \<Rightarrow> ustring" where
  "toStringUtf8 buffer = utf8Decode utf8Init buffer"

text \<open>
  \<open>Buffer.byteLength(s, 'utf8')\<close>: the length of the UTF-8 encoding of a string; a
  surrogate pair takes four bytes, a lone surrogate the three of U+FFFD.
\<close>

fun byteLengthUtf8 :: "ustring \<Rightarrow> nat" where
  "byteLengthUtf8 [] = 0"
| "byteLengthUtf8 [c] = (if c < 0x80 then 1 else if c < 0x800 then 2 else 3)"
| "byteLengthUtf8 (c # d # cs) =
     (if c < 0x80 then 1 + byteLengthUtf8 (d # cs)
      else if c < 0x800 then 2 + byteLengthUtf8 (d # cs)
      else if 0xD800 \<le> c \<and> c < 0xDC00 \<and> 0xDC00 \<le> d \<and> d < 0xE000 then 4 + byteLengthUtf8 cs
      else 3 + byteLengthUtf8 (d # cs))"

section \<open>Extended-attribute values (xattr-service: decodeXattrValue)\<close>

text \<open>The specification calls \<open>decodeXattrValue\<close> \<open>decodeAttributeValue\<close>.\<close>

definition hexDigitValue :: "nat \<Rightarrow> nat" where
  "hexDigitValue c =
     (if isDigit c then c - 0x30 else if isLower c then c - 0x61 + 10 else c - 0x41 + 10)"

text \<open>
  \<open>Buffer.from(bytes, 'hex')\<close>: one byte for every pair of hexadecimal digits, up to
  the first pair that is not one; a digit left alone at the end is dropped.
\<close>

fun bufferFromHex :: "ustring \<Rightarrow> nat list" where
  "bufferFromHex (h # l # r) =
     (if isHexDigit h \<and> isHexDigit l
      then (16 * hexDigitValue h + hexDigitValue l) # bufferFromHex r else [])"
| "bufferFromHex _ = []"

text \<open>
  Modelled from the spec: the type \<open>XattrEncoding\<close> is declared in a file that is not
  part of the sources at hand; the data model names the tags \<open>utf8\<close>, \<open>hex\<close> and
  \<open>json\<close>.
\<close>

datatype XattrEncoding = Utf8 | Hex | Json

text \<open>
  The value of an attribute is what \<open>JSON.parse\<close> returned, or a string.
  \<open>JSON.parse\<close> is a function of the platform; it is a parameter of the model, with
  \<open>None\<close> where it throws.
\<close>

datatype 'j xattr_data = Parsed 'j | Text ustring

record 'j XattrValue =
  "value" :: "'j xattr_data"
  size :: rat
  encoding :: XattrEncoding

text \<open>\<open>/^[0-9A-Fa-f\s]+$/.test(rawValue)\<close>\<close>

definition looksHex :: "ustring \<Rightarrow> bool" where
  "looksHex rawValue = (rawValue \<noteq> [] \<and> list_all (\<lambda>c. isHexDigit c \<or> isSpace c) rawValue)"

definition decodeXattrValue :: "(ustring \<Rightarrow> 'j option) \<Rightarrow> ustring \<Rightarrow> bool \<Rightarrow> 'j XattrValue" where
  "decodeXattrValue JSON_parse rawValue decodePlist =
     (if looksHex rawValue then
        (let bytes = filter (\<lambda>c. \<not> isSpace c) rawValue;
             buffer = bufferFromHex bytes;
             decoded = toStringUtf8 buffer
         in if decoded \<noteq> [] \<and> 0xFFFD \<notin> set decoded then
              (case JSON_parse decoded of
                 Some parsed \<Rightarrow>
                   \<lparr>value = Parsed parsed, size = of_nat (length buffer), encoding = Utf8\<rparr>
               | None \<Rightarrow>
                   \<lparr>value = Text decoded, size = of_nat (length buffer), encoding = Utf8\<rparr>)
            else \<lparr>value = Text bytes, size = of_nat (length bytes) / 2, encoding = Hex\<rparr>)
      else
        (case JSON_parse rawValue of
           Some parsed \<Rightarrow>
             \<lparr>value = Parsed parsed, size = of_nat (byteLengthUtf8 rawValue), encoding = Utf8\<rparr>
         | None \<Rightarrow>
             \<lparr>value = Text rawValue, size = of_nat (byteLengthUtf8 rawValue), encoding = Utf8\<rparr>))"

section \<open>Percent-decoding (decodeURIComponent)\<close>

text \<open>
  \<open>decodeURIComponent\<close> is the Decode operation of ECMAScript with nothing reserved.
  A code unit other than \<open>%\<close> is copied. A \<open>%\<close> needs two hexadecimal digits after
  it, which give an octet; an octet below 0x80 is the character; otherwise its leading
  one bits say how many octets the character has (two to four), each further one written
  as another \<open>%XX\<close>, and together they have to be the UTF-8 encoding of a code point.
  Every violation throws URIError: the model returns \<open>None\<close>.
\<close>

definition parseHexOctet :: "ustring \<Rightarrow> nat option" where
  "parseHexOctet hs =
     (case hs of
        [h, l] \<Rightarrow> if isHexDigit h \<and> isHexDigit l
                  then Some (16 * hexDigitValue h + hexDigitValue l) else None
      | _ \<Rightarrow> None)"

text \<open>The number of leading one bits of an octet; 5 stands for five or more.\<close>

definition leadingOnes :: "nat \<Rightarrow> nat" where
  "leadingOnes b =
     (if b < 0x80 then 0 else if b < 0xC0 then 1 else if b < 0xE0 then 2
      else if b < 0xF0 then 3 else if b < 0xF8 then 4 else 5)"

text \<open>\<open>j\<close> further octets, each written \<open>%XX\<close>, and nothing else.\<close>

fun readOctets :: "nat \<Rightarrow> ustring \<Rightarrow> nat list option" where
  "readOctets j s =
     (if j = 0 then (if s = [] then Some [] else None)
      else
        (case s of
           p # h # l # r \<Rightarrow>
             if p = 0x25 then
               (case parseHexOctet [h, l] of
                  None \<Rightarrow> None
                | Some b \<Rightarrow> map_option (Cons b) (readOctets (j - 1) r))
             else None
         | _ \<Rightarrow> None))"

declare readOctets.simps [simp del]

definition isContinuation :: "nat \<Rightarrow> bool" where
  "isContinuation b = (0x80 \<le> b \<and> b < 0xC0)"

text \<open>
  The code point of a multi-octet UTF-8 sequence, when the sequence is valid:
  continuation octets of the form 10xxxxxx, no overlong form, no surrogate, nothing
  above U+10FFFF.
\<close>

definition utf8CodePoint :: "nat list \<Rightarrow> nat option" where
  "utf8CodePoint octets =
     (case octets of
        [b0, b1] \<Rightarrow>
          (let v = (b0 mod 0x20) * 0x40 + b1 mod 0x40 in
           if isContinuation b1 \<and> 0x80 \<le> v then Some v else None)
      | [b0, b1, b2] \<Rightarrow>
          (let v = (b0 mod 0x10) * 0x1000 + (b1 mod 0x40) * 0x40 + b2 mod 0x40 in
           if isContinuation b1 \<and> isContinuation b2 \<and> 0x800 \<le> v
              \<and> \<not> (0xD800 \<le> v \<and> v \<le> 0xDFFF) then Some v else None)
      | [b0, b1, b2, b3] \<Rightarrow>
          (let v = (b0 mod 0x08) * 0x40000 + (b1 mod 0x40) * 0x1000
                   + (b2 mod 0x40) * 0x40 + b3 mod 0x40 in
           if isContinuation b1 \<and> isContinuation b2 \<and> isContinuation b3
              \<and> 0x10000 \<le> v \<and> v \<le> 0x10FFFF then Some v else None)
      | _ \<Rightarrow> None)"

fun decodeURIComponent :: "ustring \<Rightarrow> ustring option" where
  "decodeURIComponent [] = Some []"
| "decodeURIComponent (c # s) =
     (if c \<noteq> 0x25 then map_option (Cons c) (decodeURIComponent s)
      else
        (case parseHexOctet (take 2 s) of
           None \<Rightarrow> None
         | Some b \<Rightarrow>
             if leadingOnes b = 0 then map_option (Cons b) (decodeURIComponent (drop 2 s))
             else if leadingOnes b = 1 \<or> 4 < leadingOnes b then None
             else
               (case readOctets (leadingOnes b - 1)
                       (take (3 * (leadingOnes b - 1)) (drop 2 s)) of
                  None \<Rightarrow> None
                | Some bs \<Rightarrow>
                    (case utf8CodePoint (b # bs) of
                       None \<Rightarrow> None
                     | Some v \<Rightarrow>
                         map_option (append (UTF16Encode v))
                           (decodeURIComponent (drop (3 * leadingOnes b - 1) s))))))"

section \<open>Path validation (path-validator: validatePath)\<close>

text \<open>
  The decoding loop of \<open>validatePath\<close>:
  \<^verbatim>\<open>while (decoded !== prev) { prev = decoded;
     try { decoded = decodeURIComponent(decoded); } catch { break; } }\<close>
  The third component counts the calls of \<open>decodeURIComponent\<close>; the loop itself has
  no counter and no bound. It ends because a decoding that changes the string makes it
  shorter.
\<close>

function decodeLoop :: "ustring \<Rightarrow> ustring \<Rightarrow> nat \<Rightarrow> ustring \<times> nat" where
  "decodeLoop decoded prev rounds =
     (if decoded \<noteq> prev then
        (case decodeURIComponent decoded of
           None \<Rightarrow> (decoded, Suc rounds)
         | Some d \<Rightarrow> decodeLoop d decoded (Suc rounds))
      else (decoded, rounds))"
  by pat_completeness auto
termination
proof (relation "measure (\<lambda>(decoded, prev, rounds). 2 * length decoded + (if decoded = prev then 0 else 1))")
  show "wf (measure (\<lambda>(decoded, prev, rounds). 2 * length decoded + (if decoded = prev then 0 else 1)))"
    by simp
next
  fix decoded prev :: ustring and rounds :: nat and d :: ustring
  assume ne: "decoded \<noteq> prev" and dec: "decodeURIComponent decoded = Some d"
  have octs: "\<And>j t bs. readOctets j t = Some bs \<Longrightarrow> length t = 3 * j"
  proof -
    fix j t bs
    show "readOctets j t = Some bs \<Longrightarrow> length t = 3 * j"
    proof (induction j arbitrary: t bs)
      case 0
      then show ?case
        by (subst (asm) readOctets.simps) (simp split: if_splits)
    next
      case (Suc j)
      from Suc.prems obtain p h l r b bs' where
        t: "t = p # h # l # r" and r: "readOctets j r = Some bs'"
        by (subst (asm) readOctets.simps) (auto split: list.splits if_splits option.splits)
      from Suc.IH [OF r] t show ?case by simp
    qed
  qed
  have hex: "\<And>t b. parseHexOctet (take 2 t) = Some b \<Longrightarrow> 2 \<le> length t"
  proof -
    fix t :: ustring and b
    assume "parseHexOctet (take 2 t) = Some b"
    then obtain h l where "take 2 t = [h, l]"
      by (auto simp: parseHexOctet_def split: list.splits if_splits)
    then have "length (take 2 t) = length [h, l]"
      by (simp only:)
    then show "2 \<le> length t" by simp
  qed
  have enc: "\<And>v. length (UTF16Encode v) \<le> 2"
    by (simp add: UTF16Encode_def)
  have shrink: "\<And>s r. decodeURIComponent s = Some r \<Longrightarrow>
      length r \<le> length s \<and> (length r = length s \<longrightarrow> r = s)"
  proof -
    fix s r
    show "decodeURIComponent s = Some r \<Longrightarrow>
      length r \<le> length s \<and> (length r = length s \<longrightarrow> r = s)"
    proof (induction s arbitrary: r rule: decodeURIComponent.induct)
      case 1
      then show ?case by simp
    next
      case (2 c s)
      show ?case
      proof (cases "c \<noteq> 0x25")
        case True
        with "2.prems" obtain r' where r': "decodeURIComponent s = Some r'" "r = c # r'"
          by auto
        from "2.IH"(1) [OF True r'(1)] r'(2) show ?thesis by auto
      next
        case False
        with "2.prems" obtain b where b: "parseHexOctet (take 2 s) = Some b"
          by (auto split: option.splits)
        from hex [OF b] have l2: "2 \<le> length s" .
        show ?thesis
        proof (cases "leadingOnes b = 0")
          case True
          with False b "2.prems" obtain r' where
            r': "decodeURIComponent (drop 2 s) = Some r'" "r = b # r'"
            by auto
          from "2.IH"(2) [OF _ b True r'(1)] False have "length r' \<le> length (drop 2 s)"
            by simp
          with l2 r'(2) show ?thesis by auto
        next
          case n0: False
          with False b "2.prems" have n14: "\<not> (leadingOnes b = 1 \<or> 4 < leadingOnes b)"
            by (auto split: if_splits)
          with False b n0 "2.prems" obtain bs where
            bs: "readOctets (leadingOnes b - 1) (take (3 * (leadingOnes b - 1)) (drop 2 s)) = Some bs"
            by (auto split: option.splits)
          with False b n0 n14 "2.prems" obtain v where v: "utf8CodePoint (b # bs) = Some v"
            by (auto split: option.splits)
          with False b n0 n14 bs "2.prems" obtain r' where
            r': "decodeURIComponent (drop (3 * leadingOnes b - 1) s) = Some r'"
                "r = UTF16Encode v @ r'"
            by auto
          from "2.IH"(3) [OF _ b n0 n14 bs v r'(1)] False
          have le: "length r' \<le> length (drop (3 * leadingOnes b - 1) s)"
            by simp
          from octs [OF bs] have "length (take (3 * (leadingOnes b - 1)) (drop 2 s)) = 3 * (leadingOnes b - 1)" .
          then have "3 * (leadingOnes b - 1) \<le> length s - 2"
            by simp
          moreover from n0 n14 have "2 \<le> leadingOnes b" by arith
          ultimately have "3 * leadingOnes b - 1 \<le> length s" "5 \<le> 3 * leadingOnes b - 1"
            using l2 by arith+
          with le enc [of v] r'(2) show ?thesis by auto
        qed
      qed
    qed
  qed
  from shrink [OF dec] ne
  show "((d, decoded, Suc rounds), (decoded, prev, rounds))
     \<in> measure (\<lambda>(decoded, prev, rounds). 2 * length decoded + (if decoded = prev then 0 else 1))"
    by auto
qed

declare decodeLoop.simps [simp del]

text \<open>
  \<open>k\<close> decodings in a row, each of them successful: what the specification calls
  repeated percent-decoding. And an input of \<open>k + 1\<close> layers of encoding: the
  character \<open>A\<close> written \<open>%41\<close>, with the \<open>%\<close> itself encoded \<open>k\<close> times as
  \<open>%25\<close>.
\<close>

fun decodeTimes :: "nat \<Rightarrow> ustring \<Rightarrow> ustring option" where
  "decodeTimes 0 s = Some s"
| "decodeTimes (Suc k) s =
     (case decodeURIComponent s of None \<Rightarrow> None | Some d \<Rightarrow> decodeTimes k d)"

definition layered :: "nat \<Rightarrow> ustring" where
  "layered k = 0x25 # concat (replicate k (asc ''25'')) @ asc ''41''"

text \<open>
  \<open>path.resolve\<close>, \<open>path.normalize\<close> and \<open>path.sep\<close> are those of Node on POSIX.
  Both functions read the segments between the separators from left to right: an empty
  segment and \<open>.\<close> are skipped; \<open>..\<close> removes the last segment kept, unless there
  is none or it is \<open>..\<close> itself, in which case \<open>..\<close> is kept for a relative path
  and ignored for an absolute one; the segments kept are joined by the separator. The
  stack of kept segments has its top at the head.
\<close>

definition sep :: nat where
  "sep = 0x2F"

definition dotdot :: ustring where
  "dotdot = [0x2E, 0x2E]"

definition normStep :: "bool \<Rightarrow> ustring list \<Rightarrow> ustring \<Rightarrow> ustring list" where
  "normStep allowAboveRoot res seg =
     (if seg = [] \<or> seg = [0x2E] then res
      else if seg = dotdot then
        (case res of
           [] \<Rightarrow> if allowAboveRoot then [dotdot] else []
         | lastSegment # rest \<Rightarrow>
             if lastSegment = dotdot then (if allowAboveRoot then dotdot # res else res)
             else rest)
      else seg # res)"

definition normalizeString :: "ustring \<Rightarrow> bool \<Rightarrow> ustring" where
  "normalizeString path allowAboveRoot =
     joinWith sep (rev (foldl (normStep allowAboveRoot) [] (splitOn sep path)))"

definition isAbsolute :: "ustring \<Rightarrow> bool" where
  "isAbsolute path = (case path of [] \<Rightarrow> False | c # _ \<Rightarrow> c = sep)"

text \<open>
  \<open>path.resolve(p)\<close> with one argument: \<open>p\<close>, and in front of it the working
  directory when \<open>p\<close> is not absolute (an empty \<open>p\<close> is skipped), normalized, without
  trailing separator.
\<close>

definition path_resolve :: "ustring \<Rightarrow> ustring \<Rightarrow> ustring" where
  "path_resolve cwd p =
     (let r1 = (if p = [] then [] else p @ [sep]);
          r2 = (if isAbsolute p then r1 else if cwd = [] then r1 else cwd @ sep # r1);
          resolvedAbsolute = (isAbsolute p \<or> isAbsolute cwd);
          resolvedPath = normalizeString r2 (\<not> resolvedAbsolute)
      in if resolvedAbsolute then sep # resolvedPath
         else if resolvedPath \<noteq> [] then resolvedPath else [0x2E])"

definition path_normalize :: "ustring \<Rightarrow> ustring" where
  "path_normalize path =
     (if path = [] then [0x2E]
      else
        let trailingSeparator = (last path = sep);
            p = normalizeString path (\<not> isAbsolute path)
        in if p = [] then
             (if isAbsolute path then [sep]
              else if trailingSeparator then [0x2E, sep] else [0x2E])
           else (if isAbsolute path then [sep] else []) @ p
                @ (if trailingSeparator then [sep] else []))"

text \<open>
  \<open>lstatSync\<close> returns the status of a path, where only \<open>isSymbolicLink()\<close> is
  read, or throws an error with a code and a message.
\<close>

datatype lstat_result = Stats bool | LstatError ustring ustring

text \<open>
  The environment of a call: the working directory of the process, the file system as
  \<open>lstatSync\<close> sees it, and the canonical composition of Unicode for strings that
  hold a code unit from U+0300 on. Below U+0300 every character is its own composed
  form, so \<open>normalize('NFC')\<close> returns such a string as it is; for the others the
  composition is driven by the tables of Unicode and is a parameter.
\<close>

record env =
  cwd :: ustring
  lstatSync :: "ustring \<Rightarrow> lstat_result"
  unicodeNFC :: "ustring \<Rightarrow> ustring"

definition normalizeNFC :: "env \<Rightarrow> ustring \<Rightarrow> ustring" where
  "normalizeNFC e s = (if list_all (\<lambda>c. c < 0x300) s then s else unicodeNFC e s)"

text \<open>The errors \<open>validatePath\<close> throws, and their messages.\<close>

datatype path_error = InvalidPath | SymlinkNotAllowed | OutsideAllowed | LstatRethrown ustring

definition errorMessage :: "path_error \<Rightarrow> ustring" where
  "errorMessage e =
     (case e of
        InvalidPath \<Rightarrow> asc ''Invalid path: must be a non-empty string''
      | SymlinkNotAllowed \<Rightarrow> asc ''Symlinks are not allowed: potential sandbox escape''
      | OutsideAllowed \<Rightarrow> asc ''Path outside allowed directories''
      | LstatRethrown message \<Rightarrow> message)"

text \<open>
  The symlink check:
  \<^verbatim>\<open>try { const stats = lstatSync(normalized);
        if (stats.isSymbolicLink()) throw new Error('Symlinks are not allowed: ...'); }
  catch (err) { if (err.code !== 'ENOENT') {
        if (err.message && err.message.includes('Symlinks are not allowed')) throw err; } }\<close>
  The result is the error that leaves the block, if one does. The error thrown for a
  symbolic link has no code and is thrown again; an error of \<open>lstatSync\<close> other than
  ENOENT is thrown again only if its message holds the same words.
\<close>

definition symlinkCheck :: "env \<Rightarrow> ustring \<Rightarrow> path_error option" where
  "symlinkCheck e normalized =
     (case lstatSync e normalized of
        Stats isSymbolicLink \<Rightarrow> if isSymbolicLink then Some SymlinkNotAllowed else None
      | LstatError code message \<Rightarrow>
          if code \<noteq> asc ''ENOENT'' then
            (if message \<noteq> [] \<and> includesStr message (asc ''Symlinks are not allowed'')
             then Some (LstatRethrown message) else None)
          else None)"

text \<open>The sandbox check: \<open>ALLOWED_ROOTS.some(root => ...)\<close>.\<close>

definition inSandbox :: "ustring list \<Rightarrow> ustring \<Rightarrow> bool" where
  "inSandbox roots normalized =
     list_ex (\<lambda>root. normalized = path_normalize root
                \<or> startsWith normalized (path_normalize root @ [sep])) roots"

definition ALLOWED_ROOTS :: "ustring list" where
  "ALLOWED_ROOTS =
     [asc ''/Users/macbook/Documents/BoxOfPrompts-Central'',
      asc ''/Users/macbook/Documents/Dropository'',
      asc ''/Users/macbook/Documents/BoxOfPrompts-Central/Dropository'']"

text \<open>
  \<open>validatePath\<close>. The roots are a parameter, so that the function can be read with the
  root of the specification's examples as well; the function of the source is
  \<open>validatePath e ALLOWED_ROOTS\<close>.
\<close>

definition validatePath :: "env \<Rightarrow> ustring list \<Rightarrow> jsvalue \<Rightarrow> path_error + ustring" where
  "validatePath e roots filePath =
     (case filePath of
        JString fp \<Rightarrow>
          if fp = [] then Inl InvalidPath
          else
            let sanitized = filter (\<lambda>c. c \<noteq> 0) fp;
                sanitized = normalizeNFC e sanitized;
                decoded = fst (decodeLoop sanitized [] 0);
                absolute = path_resolve (cwd e) decoded;
                normalized = path_normalize absolute
            in (case symlinkCheck e normalized of
                  Some err \<Rightarrow> Inl err
                | None \<Rightarrow>
                    if \<not> inSandbox roots normalized then Inl OutsideAllowed
                    else Inr normalized)
      | _ \<Rightarrow> Inl InvalidPath)"

definition isPathAllowed :: "env \<Rightarrow> ustring list \<Rightarrow> jsvalue \<Rightarrow> bool" where
  "isPathAllowed e roots filePath =
     (case validatePath e roots filePath of Inr _ \<Rightarrow> True | Inl _ \<Rightarrow> False)"

definition filterAllowedPaths :: "env \<Rightarrow> ustring list \<Rightarrow> jsvalue list \<Rightarrow> jsvalue list" where
  "filterAllowedPaths e roots paths = filter (isPathAllowed e roots) paths"

section \<open>Error sanitizer (path-validator: sanitizeErrorMessage)\<close>

text \<open>The classes \<open>[\w\-._]\<close> and \<open>[\w\-._/]\<close> of the path pattern.\<close>

definition isPathChar :: "nat \<Rightarrow> bool" where
  "isPathChar c = (isWord c \<or> c = 0x2D \<or> c = 0x2E)"

definition isPathCharOrSlash :: "nat \<Rightarrow> bool" where
  "isPathCharOrSlash c = (isPathChar c \<or> c = 0x2F)"

text \<open>
  The first alternative of the path pattern, \<open>(?:\/[\w\-._]+)+\<close>, at the start of a
  string: the length of what it matches, 0 when it does not match. Every repetition is
  a slash and the longest run of the class after it.
\<close>

function matchAbsolute :: "ustring \<Rightarrow> nat" where
  "matchAbsolute s =
     (case s of
        c # d # r \<Rightarrow>
          if c = 0x2F \<and> isPathChar d
          then 1 + length (takeWhile isPathChar (d # r))
                 + matchAbsolute (dropWhile isPathChar (d # r))
          else 0
      | _ \<Rightarrow> 0)"
  by pat_completeness auto
termination
  by (relation "measure length")
     (auto simp: less_Suc_eq_le le_SucI length_dropWhile_le)

declare matchAbsolute.simps [simp del]

text \<open>
  The second alternative, \<open>\.\.?\/[\w\-._/]*\<close>: one dot or two, a slash, and the
  longest run of the class with the slash.
\<close>

definition matchRelative :: "ustring \<Rightarrow> nat" where
  "matchRelative s =
     (case s of
        c # d # r \<Rightarrow>
          if c = 0x2E \<and> d = 0x2F then 2 + length (takeWhile isPathCharOrSlash r)
          else if c = 0x2E \<and> d = 0x2E then
            (case r of
               f # r' \<Rightarrow> if f = 0x2F then 3 + length (takeWhile isPathCharOrSlash r') else 0
             | [] \<Rightarrow> 0)
          else 0
      | _ \<Rightarrow> 0)"

definition matchPath :: "ustring \<Rightarrow> nat" where
  "matchPath s = (if 0 < matchAbsolute s then matchAbsolute s else matchRelative s)"

text \<open>
  \<open>message.replace(pathPattern, '[path]')\<close> with the \<open>g\<close> flag: from left to right,
  the match at a position is replaced and the scan goes on after it. The first argument
  is the number of characters of the last match not yet passed.
\<close>

fun replacePaths :: "nat \<Rightarrow> ustring \<Rightarrow> ustring" where
  "replacePaths skip [] = []"
| "replacePaths skip (c # s) =
     (if 0 < skip then replacePaths (skip - 1) s
      else if 0 < matchPath (c # s)
        then asc ''[path]'' @ replacePaths (matchPath (c # s) - 1) s
      else c # replacePaths 0 s)"

text \<open>\<open>/:\s*\[path\]/\<close> at the start of a string: the length of the match, or 0.\<close>

definition matchLabel :: "ustring \<Rightarrow> nat" where
  "matchLabel s =
     (case s of
        c # r \<Rightarrow>
          if c = 0x3A \<and> startsWith (dropWhile isSpace r) (asc ''[path]'')
          then 1 + length (takeWhile isSpace r) + 6 else 0
      | [] \<Rightarrow> 0)"

fun removeLabels :: "nat \<Rightarrow> ustring \<Rightarrow> ustring" where
  "removeLabels skip [] = []"
| "removeLabels skip (c # s) =
     (if 0 < skip then removeLabels (skip - 1) s
      else if 0 < matchLabel (c # s) then removeLabels (matchLabel (c # s) - 1) s
      else c # removeLabels 0 s)"

definition sanitizeErrorMessage :: "ustring \<Rightarrow> ustring" where
  "sanitizeErrorMessage message =
     (if message = [] then asc ''Unknown error''
      else removeLabels 0 (replacePaths 0 message))"

section \<open>Mediated tool calls (xattr-service: listXattrs; spotlight-service: spotlightSearch)\<close>

text \<open>
  \<open>execFile\<close>, promisified: the standard output of the tool, or an error with a
  message. \<open>getFileMetadata\<close> reads the status and the metadata of a result; its body
  is one \<open>try\<close> that returns \<open>null\<close> on any failure. Both are parameters.
\<close>

datatype exec_result = ExecOk ustring | ExecError ustring

record 'r tools =
  execFile :: "ustring \<Rightarrow> ustring list \<Rightarrow> exec_result"
  getFileMetadata :: "ustring \<Rightarrow> jsvalue list \<Rightarrow> 'r option"

text \<open>An entry of the operation log: operation, path, attribute, success.\<close>

type_synonym log_entry = "ustring \<times> ustring \<times> ustring option \<times> bool"

record ListXattrResult =
  path :: ustring
  attributes :: "ustring list"
  count :: nat

text \<open>\<open>stdout.trim().split('\n').filter(Boolean)\<close>\<close>

definition outputLines :: "ustring \<Rightarrow> ustring list" where
  "outputLines stdout = filter (\<lambda>l. l \<noteq> []) (splitOn 0x0A (trim stdout))"

text \<open>
  \<open>listXattrs\<close>: the entries written to the operation log, and the result or the
  message of the error thrown. The path is validated outside the \<open>try\<close>, so an error
  of \<open>validatePath\<close> leaves the function as it is.
\<close>

definition listXattrs ::
  "env \<Rightarrow> 'r tools \<Rightarrow> ustring list \<Rightarrow> jsvalue \<Rightarrow> log_entry list \<times> (ustring + ListXattrResult)"
where
  "listXattrs e t roots filePath =
     (case validatePath e roots filePath of
        Inl err \<Rightarrow> ([], Inl (errorMessage err))
      | Inr validatedPath \<Rightarrow>
          (case execFile t (asc ''xattr'') [validatedPath] of
             ExecOk stdout \<Rightarrow>
               ([(asc ''list'', validatedPath, None, True)],
                Inr \<lparr>path = validatedPath, attributes = outputLines stdout,
                     count = length (outputLines stdout)\<rparr>)
           | ExecError message \<Rightarrow>
               ([(asc ''list'', validatedPath, None, False)],
                if includesStr message (asc ''No such xattr'')
                then Inr \<lparr>path = validatedPath, attributes = [], count = 0\<rparr>
                else Inl (asc ''Failed to list xattrs: '' @ message))))"

record 'r SpotlightSearchOutput =
  results :: "'r list"
  resultCount :: nat
  truncated :: bool

text \<open>
  \<open>spotlightSearch\<close>: a scope directory that does not validate is skipped; the results
  of the tool are filtered by \<open>isPathAllowed\<close>, cut at the limit and looked up; an
  error of the tool is thrown again with its message sanitized.
\<close>

definition spotlightSearch ::
  "env \<Rightarrow> 'r tools \<Rightarrow> ustring list \<Rightarrow> ustring \<Rightarrow> jsvalue list \<Rightarrow> nat \<Rightarrow> jsvalue list
     \<Rightarrow> ustring + 'r SpotlightSearchOutput"
where
  "spotlightSearch e t roots query scope limit attrs =
     (let args = concat (map (\<lambda>dir. case validatePath e roots dir of
                                       Inr validatedDir \<Rightarrow> [asc ''-onlyin'', validatedDir]
                                     | Inl _ \<Rightarrow> []) scope) @ [query]
      in case execFile t (asc ''mdfind'') args of
           ExecOk stdout \<Rightarrow>
             (let paths = outputLines stdout;
                  allowedPaths = filter (\<lambda>p. isPathAllowed e roots (JString p)) paths;
                  limitedPaths = take limit allowedPaths;
                  found = List.map_filter (\<lambda>p. getFileMetadata t p attrs) limitedPaths
              in Inr \<lparr>results = found, resultCount = length found,
                      truncated = (limit < length allowedPaths)\<rparr>)
         | ExecError message \<Rightarrow>
             Inl (asc ''Spotlight search failed: '' @ sanitizeErrorMessage message))"

text \<open>
  A segment as it stands in a resolved path: not empty, neither \<open>.\<close> nor \<open>..\<close>,
  and without separator.
\<close>

definition normalSegment :: "ustring \<Rightarrow> bool" where
  "normalSegment seg = (seg \<noteq> [] \<and> seg \<noteq> [0x2E] \<and> seg \<noteq> dotdot \<and> sep \<notin> set seg)"

section \<open>Environments of the examples\<close>

text \<open>
  A process in the root directory and a file system without files: \<open>lstatSync\<close>
  throws ENOENT, and for a path with a null character the error of Node's argument
  check. The examples hold no code unit from U+0300 on, so that the composition
  function is never asked.
\<close>

definition noFiles :: env where
  "noFiles =
     \<lparr>cwd = asc ''/'',
      lstatSync = (\<lambda>p. if 0 \<in> set p
         then LstatError (asc ''ERR_INVALID_ARG_VALUE'')
                (asc ''The argument path must be a string without null bytes'')
         else LstatError (asc ''ENOENT'') (asc ''ENOENT: no such file or directory, lstat'')),
      unicodeNFC = (\<lambda>s. s)\<rparr>"

text \<open>The same, with \<open>/etc\<close> a symbolic link (as it is on macOS).\<close>

definition etcLink :: env where
  "etcLink = noFiles\<lparr>lstatSync := (\<lambda>p. if p = asc ''/etc'' then Stats True else lstatSync noFiles p)\<rparr>"

text \<open>A tool that fails on every call, naming its arguments in the message.\<close>

definition failingTool :: "unit tools" where
  "failingTool =
     \<lparr>execFile = (\<lambda>cmd args. ExecError (asc ''Command failed: '' @ cmd @ concat (map (Cons 0x20) args))),
      getFileMetadata = (\<lambda>p attrs. None)\<rparr>"

section \<open>Properties of the attribute-name guard\<close>

lemma attributeToken_nonempty: "attributeToken s \<Longrightarrow> s \<noteq> []"
  by (induction rule: attributeToken.induct) auto

lemma attributeToken_imp_pattern: "attributeToken s \<Longrightarrow> VALID_ATTRIBUTE_PATTERN s"
proof (induction rule: attributeToken.induct)
  case (ident_start c)
  then show ?case by auto
next
  case (ident_extend s c)
  from attributeToken_nonempty [OF ident_extend.hyps(1)]
  obtain a as where "s = a # as"
    by (cases s) auto
  with ident_extend.IH ident_extend.hyps(2) show ?case by auto
qed

lemma pattern_imp_attributeToken_aux:
  "isUpper a \<or> isLower a \<or> a = 0x5F \<Longrightarrow>
   list_all (\<lambda>d. isLower d \<or> isUpper d \<or> isDigit d \<or> d = 0x5F) cs \<Longrightarrow>
   attributeToken (a # cs)"
proof (induction cs rule: rev_induct)
  case Nil
  then show ?case by (simp add: ident_start)
next
  case (snoc x xs)
  then have "attributeToken (a # xs)" by simp
  moreover from snoc.prems have "isUpper x \<or> isLower x \<or> isDigit x \<or> x = 0x5F"
    by auto
  ultimately have "attributeToken ((a # xs) @ [x])"
    by (rule ident_extend)
  then show ?case by simp
qed

lemma pattern_iff_attributeToken: "VALID_ATTRIBUTE_PATTERN s \<longleftrightarrow> attributeToken s"
proof
  assume "VALID_ATTRIBUTE_PATTERN s"
  then show "attributeToken s"
    by (cases s) (auto intro: pattern_imp_attributeToken_aux)
next
  assume "attributeToken s"
  then show "VALID_ATTRIBUTE_PATTERN s" by (rule attributeToken_imp_pattern)
qed

lemma keepAttribute_iff:
  "keepAttribute a \<longleftrightarrow> (\<exists>s. a = JString s \<and> s \<noteq> [] \<and> attributeToken s)"
  by (cases a) (auto simp: pattern_iff_attributeToken)

text \<open>
  Claim C6. For every list of tokens, \<open>sanitizeAttributes\<close> returns an order-preserving
  subsequence of its input; every retained element is a non-empty string of the
  identifier grammar; every element that is a non-empty string of the grammar is
  retained, so that what is dropped is a non-string, the empty string or a string that
  violates the grammar; and the list
  \<open>["kMDItemDisplayName", "kMDItem; rm -rf /", "_ok1"]\<close> is mapped to
  \<open>["kMDItemDisplayName", "_ok1"]\<close>.
\<close>

theorem sanitizeAttributes_subsequence_of_attributeTokens:
  "subseq (sanitizeAttributes attrs) attrs
   \<and> (\<forall>a \<in> set (sanitizeAttributes attrs). \<exists>s. a = JString s \<and> s \<noteq> [] \<and> attributeToken s)
   \<and> sanitizeAttributes attrs = filter (\<lambda>a. \<exists>s. a = JString s \<and> s \<noteq> [] \<and> attributeToken s) attrs
   \<and> (\<forall>a \<in> set attrs. a \<notin> set (sanitizeAttributes attrs) \<longrightarrow>
        (\<forall>s. a = JString s \<longrightarrow> s = [] \<or> \<not> attributeToken s))
   \<and> sanitizeAttributes [JString (asc ''kMDItemDisplayName''),
        JString (asc ''kMDItem; rm -rf /''), JString (asc ''_ok1'')]
      = [JString (asc ''kMDItemDisplayName''), JString (asc ''_ok1'')]"
proof -
  have eq: "sanitizeAttributes attrs
      = filter (\<lambda>a. \<exists>s. a = JString s \<and> s \<noteq> [] \<and> attributeToken s) attrs"
    unfolding sanitizeAttributes_def
    by (rule filter_cong) (simp_all add: keepAttribute_iff)
  have sub: "subseq (sanitizeAttributes attrs) attrs"
    by (simp add: sanitizeAttributes_def)
  have kept: "\<forall>a \<in> set (sanitizeAttributes attrs). \<exists>s. a = JString s \<and> s \<noteq> [] \<and> attributeToken s"
    by (simp add: eq)
  have dropped: "\<forall>a \<in> set attrs. a \<notin> set (sanitizeAttributes attrs) \<longrightarrow>
      (\<forall>s. a = JString s \<longrightarrow> s = [] \<or> \<not> attributeToken s)"
    by (auto simp: eq)
  have ex: "sanitizeAttributes [JString (asc ''kMDItemDisplayName''),
        JString (asc ''kMDItem; rm -rf /''), JString (asc ''_ok1'')]
      = [JString (asc ''kMDItemDisplayName''), JString (asc ''_ok1'')]"
    by (simp add: sanitizeAttributes_def asc_def isUpper_def isLower_def isDigit_def)
  from sub kept eq dropped ex show ?thesis
    by (intro conjI) assumption+
qed

theorem sanitizeAttributes_subsequence_of_attributeTokens_witness:
  "JString (asc ''_ok1'') \<in> set (sanitizeAttributes [JNull, JString (asc ''_ok1''), JString []])
   \<and> attributeToken (asc ''_ok1'')
   \<and> JString [] \<in> set [JNull, JString (asc ''_ok1''), JString []]
   \<and> JString [] \<notin> set (sanitizeAttributes [JNull, JString (asc ''_ok1''), JString []])
   \<and> subseq (sanitizeAttributes [JNull, JString (asc ''_ok1''), JString []])
        [JNull, JString (asc ''_ok1''), JString []]"
proof -
  have m: "JString (asc ''_ok1'') \<in> set (sanitizeAttributes [JNull, JString (asc ''_ok1''), JString []])"
    by (simp add: sanitizeAttributes_def asc_def isUpper_def isLower_def isDigit_def)
  have d: "JString [] \<notin> set (sanitizeAttributes [JNull, JString (asc ''_ok1''), JString []])"
    by (simp add: sanitizeAttributes_def asc_def isUpper_def isLower_def isDigit_def)
  have t: "attributeToken (asc ''_ok1'')"
    using sanitizeAttributes_subsequence_of_attributeTokens
      [of "[JNull, JString (asc ''_ok1''), JString []]"] m
    by blast
  have s: "subseq (sanitizeAttributes [JNull, JString (asc ''_ok1''), JString []])
        [JNull, JString (asc ''_ok1''), JString []]"
    using sanitizeAttributes_subsequence_of_attributeTokens
      [of "[JNull, JString (asc ''_ok1''), JString []]"]
    by (rule conjunct1)
  have i: "JString [] \<in> set [JNull, JString (asc ''_ok1''), JString []]"
    by simp
  from m t i d s show ?thesis
    by (intro conjI) assumption+
qed

section \<open>The functions of the platform on documented examples\<close>

text \<open>
  The models of \<open>Number\<close>, \<open>decodeURIComponent\<close>, \<open>path.normalize\<close>,
  \<open>path.resolve\<close>, \<open>buffer.toString('utf8')\<close> and of the two replacements of
  \<open>sanitizeErrorMessage\<close>, evaluated on examples of their documentation and of the
  comments of the source.
\<close>

lemmas number_eval =
  Number_def trim_def isSpace_def parseNonDecimal_def parseUnsignedDecimal_def
  parseExponent_def isDigit_def isLower_def isHexDigit_def negate_def pow10_def asc_def

lemma Number_examples:
  "Number (asc ''123'') = Finite 123"
  "Number (asc ''12.00'') = Finite 12"
  "Number (asc '''') = Finite 0"
  "Number (asc '' 12 '') = Finite 12"
  "Number (asc ''0x11'') = Finite 17"
  "Number (asc ''0b11'') = Finite 3"
  "Number (asc ''0o11'') = Finite 9"
  "Number (asc ''-1.5e2'') = Finite (- 150)"
  "Number (asc ''-Infinity'') = Infinite True"
  "Number (asc ''foo'') = NaN"
  "Number (asc ''100a'') = NaN"
  "Number (asc ''1_000'') = NaN"
  "Number (asc ''-0x11'') = NaN"
  by (simp_all add: number_eval)

lemmas decode_eval =
  readOctets.simps parseHexOctet_def isHexDigit_def isDigit_def isLower_def isUpper_def
  hexDigitValue_def leadingOnes_def utf8CodePoint_def isContinuation_def UTF16Encode_def asc_def

lemma decodeURIComponent_examples:
  "decodeURIComponent (asc ''a%20b%2Fc'') = Some (asc ''a b/c'')"
  "decodeURIComponent (asc ''_%D1%88%D0%B5'') = Some [0x5F, 0x448, 0x435]"
  "decodeURIComponent (asc ''%F0%9F%98%80'') = Some [0xD83D, 0xDE00]"
  "decodeURIComponent (asc ''%E0%A4%A'') = None"
  "decodeURIComponent (asc ''%'') = None"
  "decodeURIComponent (asc ''%C0%AF'') = None"
  "decodeURIComponent (asc ''%ED%A0%80'') = None"
  by (simp_all add: decode_eval)

lemmas node_path_eval =
  path_resolve_def path_normalize_def normalizeString_def normStep_def isAbsolute_def
  sep_def dotdot_def asc_def Let_def

lemma path_examples:
  "path_normalize (asc ''/foo/bar//baz/asdf/quux/..'') = asc ''/foo/bar/baz/asdf''"
  "path_normalize (asc ''a/../../b/'') = asc ''../b/''"
  "path_normalize (asc ''./'') = asc ''./''"
  "path_resolve (asc ''/foo/bar'') (asc ''./baz'') = asc ''/foo/bar/baz''"
  "path_resolve (asc ''/foo/bar'') (asc ''/tmp/file/'') = asc ''/tmp/file''"
  "path_resolve (asc ''/foo/bar'') (asc ''../../../x'') = asc ''/x''"
  "path_resolve (asc ''/foo/bar'') [] = asc ''/foo/bar''"
  by (simp_all add: node_path_eval)

lemma toStringUtf8_examples:
  "toStringUtf8 [0x68, 0x69] = asc ''hi''"
  "toStringUtf8 [0xE2, 0x82, 0xAC] = [0x20AC]"
  "toStringUtf8 [0xF0, 0x9F, 0x98, 0x80] = [0xD83D, 0xDE00]"
  "toStringUtf8 [0xFF] = [0xFFFD]"
  "toStringUtf8 [0xE2, 0x82] = [0xFFFD]"
  "toStringUtf8 [0xC0, 0x80] = [0xFFFD, 0xFFFD]"
  "toStringUtf8 [0xE2, 0x41] = [0xFFFD, 0x41]"
  by (simp_all add: toStringUtf8_def utf8Init_def utf8Lead_def UTF16Encode_def asc_def)

lemmas sanitize_eval =
  sanitizeErrorMessage_def matchAbsolute.simps matchPath_def matchRelative_def matchLabel_def
  isPathChar_def isPathCharOrSlash_def isWord_def isUpper_def isLower_def isDigit_def
  isSpace_def startsWith_def asc_def

lemma sanitizeErrorMessage_examples:
  "sanitizeErrorMessage [] = asc ''Unknown error''"
  "sanitizeErrorMessage (asc ''ENOENT: no such file or directory, open <'' @ asc ''/secret/file.txt>'')
     = asc ''ENOENT: no such file or directory, open <[path]>''"
  "sanitizeErrorMessage (asc ''No such file or directory: /some/path'') = asc ''No such file or directory''"
  "sanitizeErrorMessage (asc ''see ./a/b and ../c, not a.b'') = asc ''see [path] and [path], not a.b''"
  by (simp_all add: sanitize_eval)

section \<open>Properties of the metadata value parser\<close>

text \<open>
  Claim C7. \<open>parseSpotlightValue\<close> follows the literal grammar on the five values of the
  specification: \<open>(null)\<close> is null, \<open>("Red", "Blue")\<close> is the list of \<open>Red\<close> and
  \<open>Blue\<close>, \<open>"hello"\<close> is the string \<open>hello\<close>, \<open>42\<close> is the number 42, and
  \<open>42abc\<close> stays the string \<open>42abc\<close>.
\<close>

theorem parseSpotlightValue_literal_grammar:
  "parseSpotlightValue (asc ''(null)'') = SNull
   \<and> parseSpotlightValue (asc ''(\"Red\", \"Blue\")'') = SArray [asc ''Red'', asc ''Blue'']
   \<and> parseSpotlightValue (asc ''\"hello\"'') = SString (asc ''hello'')
   \<and> parseSpotlightValue (asc ''42'') = SNumber (Finite 42)
   \<and> parseSpotlightValue (asc ''42abc'') = SString (asc ''42abc'')"
proof -
  have a: "parseSpotlightValue (asc ''(null)'') = SNull"
    by (simp add: parseSpotlightValue_def)
  have b: "parseSpotlightValue (asc ''(\"Red\", \"Blue\")'') = SArray [asc ''Red'', asc ''Blue'']"
    by (simp add: parseSpotlightValue_def asc_def startsWith_def endsWith_def sliceInner_def
        trim_def isSpace_def stripQuotes_def)
  have c: "parseSpotlightValue (asc ''\"hello\"'') = SString (asc ''hello'')"
    by (simp add: parseSpotlightValue_def asc_def startsWith_def endsWith_def sliceInner_def)
  have d: "parseSpotlightValue (asc ''42'') = SNumber (Finite 42)"
    by (simp add: parseSpotlightValue_def asc_def startsWith_def endsWith_def Number_def
        trim_def isSpace_def parseNonDecimal_def parseUnsignedDecimal_def isDigit_def isNaN_def)
  have e: "parseSpotlightValue (asc ''42abc'') = SString (asc ''42abc'')"
    by (simp add: parseSpotlightValue_def asc_def startsWith_def endsWith_def Number_def
        trim_def isSpace_def parseNonDecimal_def parseUnsignedDecimal_def isDigit_def isNaN_def
        parseExponent_def)
  from a b c d e show ?thesis
    by (intro conjI) assumption+
qed

lemma trim_empty_iff: "trim v = [] \<longleftrightarrow> list_all isSpace v"
proof
  assume "trim v = []"
  then have a: "\<forall>x \<in> set (dropWhile isSpace v). isSpace x"
    by (simp add: trim_def dropWhile_eq_Nil_conv)
  have "dropWhile isSpace v = []"
  proof (rule ccontr)
    assume n: "dropWhile isSpace v \<noteq> []"
    then have "\<not> isSpace (hd (dropWhile isSpace v))"
      by (rule hd_dropWhile)
    moreover from n have "hd (dropWhile isSpace v) \<in> set (dropWhile isSpace v)"
      by simp
    ultimately show False using a by blast
  qed
  then show "list_all isSpace v"
    by (simp add: dropWhile_eq_Nil_conv list_all_iff)
next
  assume "list_all isSpace v"
  then have "dropWhile isSpace v = []"
    by (simp add: dropWhile_eq_Nil_conv list_all_iff)
  then have "trim v = rev (dropWhile isSpace (rev []))"
    by (simp only: trim_def)
  then show "trim v = []"
    by simp
qed

lemma blank_not_startsWith:
  assumes "list_all isSpace v" and "\<not> isSpace c"
  shows "\<not> startsWith v (c # p)"
  using assms by (cases v) (auto simp: startsWith_def)

lemma parseSpotlightValue_blank:
  assumes "trim v = []"
  shows "parseSpotlightValue v = SNumber (Finite 0)"
proof -
  from assms have sp: "list_all isSpace v"
    by (simp add: trim_empty_iff)
  have "trim (asc ''(null)'') \<noteq> []"
    by (simp add: trim_def asc_def isSpace_def)
  with assms have n1: "v \<noteq> asc ''(null)''" by auto
  have n2: "\<not> startsWith v [0x28]"
    using sp by (rule blank_not_startsWith) (simp add: isSpace_def)
  have n3: "\<not> startsWith v [0x22]"
    using sp by (rule blank_not_startsWith) (simp add: isSpace_def)
  have num: "Number v = Finite 0"
    using assms by (simp add: Number_def)
  show ?thesis
    using n1 n2 n3 num by (simp add: parseSpotlightValue_def isNaN_def)
qed

text \<open>
  Claim C10. \<open>parseSpotlightValue\<close> applied to the empty string returns the number 0,
  not the empty string, and so it does for every value that trimming leaves empty: none
  of the earlier branches takes such a value, and \<open>Number\<close> reads it as 0.
\<close>

theorem parseSpotlightValue_empty_is_zero:
  "parseSpotlightValue [] = SNumber (Finite 0)
   \<and> parseSpotlightValue [] \<noteq> SString []
   \<and> (trim v = [] \<longrightarrow> parseSpotlightValue v = SNumber (Finite 0))"
proof -
  have "trim [] = []" by (simp add: trim_def)
  then have "parseSpotlightValue [] = SNumber (Finite 0)"
    by (rule parseSpotlightValue_blank)
  then show ?thesis
    by (simp add: parseSpotlightValue_blank)
qed

theorem parseSpotlightValue_empty_is_zero_witness:
  "trim (asc ''  '') = [] \<and> parseSpotlightValue (asc ''  '') = SNumber (Finite 0)"
proof -
  have t: "trim (asc ''  '') = []"
    by (simp add: trim_def asc_def isSpace_def)
  with parseSpotlightValue_empty_is_zero [of "asc ''  ''"] show ?thesis
    by blast
qed

section \<open>Properties of the attribute value decoder\<close>

text \<open>Bytes below 0x80 are ASCII text: the decoder returns them as they are.\<close>

lemma utf8Decode_ascii:
  "\<forall>b \<in> set bs. b < 0x80 \<Longrightarrow> utf8Decode utf8Init bs = bs"
  by (induction bs) (auto simp: utf8Init_def utf8Lead_def)

lemma toStringUtf8_ascii:
  "\<forall>b \<in> set bs. b < 0x80 \<Longrightarrow> toStringUtf8 bs = bs"
  by (simp add: toStringUtf8_def utf8Decode_ascii)

lemma odd_half_not_int:
  assumes "odd (n::nat)"
  shows "(of_nat n / 2 :: rat) \<notin> \<int>"
proof
  assume "(of_nat n / 2 :: rat) \<in> \<int>"
  then obtain k :: int where k: "(of_nat n / 2 :: rat) = of_int k"
    by (auto elim: Ints_cases)
  then have "(of_nat n :: rat) = of_int (2 * k)"
    by simp
  then have "(of_int (int n) :: rat) = of_int (2 * k)"
    by simp
  then have "int n = 2 * k"
    by (simp only: of_int_eq_iff)
  then have "even (int n)"
    by simp
  with assms show False
    by simp
qed

text \<open>
  Claim C8, as the code has it. For a raw value made of hexadecimal digits and white
  space only: when the decoded bytes are a non-empty text without replacement character
  and \<open>JSON.parse\<close> accepts the text, the parsed value is returned, tagged \<open>utf8\<close>;
  when \<open>JSON.parse\<close> rejects it, the text itself is returned, tagged \<open>utf8\<close>; when
  the text is empty or holds a replacement character, the hexadecimal string without its
  white space is returned, tagged \<open>hex\<close>, with half its length as size. The tag
  \<open>json\<close> is never produced.
\<close>

theorem decodeXattrValue_hex_branches:
  assumes "looksHex rawValue"
    and "bytes = filter (\<lambda>c. \<not> isSpace c) rawValue"
    and "buffer = bufferFromHex bytes"
    and "decoded = toStringUtf8 buffer"
  shows "(decoded \<noteq> [] \<and> 0xFFFD \<notin> set decoded \<and> JSON_parse decoded = Some parsed \<longrightarrow>
           decodeXattrValue JSON_parse rawValue decodePlist
           = \<lparr>value = Parsed parsed, size = of_nat (length buffer), encoding = Utf8\<rparr>)
       \<and> (decoded \<noteq> [] \<and> 0xFFFD \<notin> set decoded \<and> JSON_parse decoded = None \<longrightarrow>
           decodeXattrValue JSON_parse rawValue decodePlist
           = \<lparr>value = Text decoded, size = of_nat (length buffer), encoding = Utf8\<rparr>)
       \<and> (decoded = [] \<or> 0xFFFD \<in> set decoded \<longrightarrow>
           decodeXattrValue JSON_parse rawValue decodePlist
           = \<lparr>value = Text bytes, size = of_nat (length bytes) / 2, encoding = Hex\<rparr>)
       \<and> encoding (decodeXattrValue JSON_parse rawValue decodePlist) \<noteq> Json"
  using assms
  by (auto simp: decodeXattrValue_def Let_def split: option.splits)

theorem decodeXattrValue_hex_branches_witness:
  "looksHex (asc ''34 32'')
   \<and> decodeXattrValue (\<lambda>s. if s = asc ''42'' then Some (42::int) else None) (asc ''34 32'') True
     = \<lparr>value = Parsed 42, size = 2, encoding = Utf8\<rparr>"
proof -
  have h: "looksHex (asc ''34 32'')"
    by (simp add: looksHex_def asc_def isHexDigit_def isDigit_def isSpace_def)
  have b: "bufferFromHex (filter (\<lambda>c. \<not> isSpace c) (asc ''34 32'')) = [0x34, 0x32]"
    by (simp add: asc_def isSpace_def isHexDigit_def isDigit_def hexDigitValue_def)
  have d: "toStringUtf8 [0x34, 0x32] = asc ''42''"
    by (simp add: toStringUtf8_def utf8Init_def utf8Lead_def asc_def)
  have n: "asc ''42'' \<noteq> [] \<and> 0xFFFD \<notin> set (asc ''42'')"
    by (simp add: asc_def)
  from decodeXattrValue_hex_branches [OF h refl refl refl,
      of "\<lambda>s. if s = asc ''42'' then Some (42::int) else None" 42 True]
  show ?thesis using h b d n by simp
qed

text \<open>
  The claim as the specification words it (a parsed value is tagged \<open>json\<close>) fails on
  \<open>34 32\<close>, the bytes of the text \<open>42\<close>: the number 42 comes back tagged \<open>utf8\<close>.
\<close>

theorem decodeXattrValue_json_tag_counterexample:
  "decodeXattrValue (\<lambda>s. if s = asc ''42'' then Some (42::int) else None) (asc ''34 32'') True
     = \<lparr>value = Parsed 42, size = 2, encoding = Utf8\<rparr>
   \<and> encoding (decodeXattrValue (\<lambda>s. if s = asc ''42'' then Some (42::int) else None)
        (asc ''34 32'') True) \<noteq> Json"
  by (simp add: decodeXattrValue_def looksHex_def asc_def isHexDigit_def isDigit_def isSpace_def
      hexDigitValue_def toStringUtf8_def utf8Init_def utf8Lead_def)

text \<open>
  Claim C9. A raw value of hexadecimal digits and white space with an odd number of
  digits, whose bytes (the last digit dropped) do not decode to a non-empty text free of
  replacement characters, is not rejected: the digits without the white space are
  returned, tagged \<open>hex\<close>, and the size is half the number of digits, which is not an
  integer.
\<close>

theorem decodeXattrValue_odd_hex:
  assumes "looksHex rawValue"
    and "bytes = filter (\<lambda>c. \<not> isSpace c) rawValue"
    and "odd (length bytes)"
    and "decoded = toStringUtf8 (bufferFromHex bytes)"
    and "decoded = [] \<or> 0xFFFD \<in> set decoded"
  shows "decodeXattrValue JSON_parse rawValue decodePlist
           = \<lparr>value = Text bytes, size = of_nat (length bytes) / 2, encoding = Hex\<rparr>
       \<and> size (decodeXattrValue JSON_parse rawValue decodePlist) \<notin> \<int>"
proof -
  from assms have r: "decodeXattrValue JSON_parse rawValue decodePlist
           = \<lparr>value = Text bytes, size = of_nat (length bytes) / 2, encoding = Hex\<rparr>"
    by (auto simp: decodeXattrValue_def Let_def)
  from assms(3) have "(of_nat (length bytes) / 2 :: rat) \<notin> \<int>"
    by (rule odd_half_not_int)
  with r show ?thesis by simp
qed

theorem decodeXattrValue_odd_hex_witness:
  "looksHex (asc ''f f f'')
   \<and> odd (length (filter (\<lambda>c. \<not> isSpace c) (asc ''f f f'')))
   \<and> 0xFFFD \<in> set (toStringUtf8 (bufferFromHex (filter (\<lambda>c. \<not> isSpace c) (asc ''f f f''))))
   \<and> decodeXattrValue (\<lambda>s. if s = asc ''42'' then Some (42::int) else None) (asc ''f f f'') True
       = \<lparr>value = Text (asc ''fff''), size = 3 / 2, encoding = Hex\<rparr>
   \<and> size (decodeXattrValue (\<lambda>s. if s = asc ''42'' then Some (42::int) else None) (asc ''f f f'') True) \<notin> \<int>"
proof -
  have h: "looksHex (asc ''f f f'')"
    by (simp add: looksHex_def asc_def isHexDigit_def isDigit_def isSpace_def)
  have f: "filter (\<lambda>c. \<not> isSpace c) (asc ''f f f'') = asc ''fff''"
    by (simp add: asc_def isSpace_def)
  have o: "odd (length (filter (\<lambda>c. \<not> isSpace c) (asc ''f f f'')))"
    by (simp add: f) (simp add: asc_def)
  have d: "toStringUtf8 (bufferFromHex (asc ''fff'')) = [0xFFFD]"
    by (simp add: asc_def isHexDigit_def isDigit_def isLower_def hexDigitValue_def
        toStringUtf8_def utf8Init_def utf8Lead_def)
  have m: "0xFFFD \<in> set (toStringUtf8 (bufferFromHex (filter (\<lambda>c. \<not> isSpace c) (asc ''f f f''))))"
    by (simp add: f d)
  have l: "length (asc ''fff'') = 3"
    by (simp add: asc_def)
  from decodeXattrValue_odd_hex [OF h refl o refl disjI2, OF m,
      of "\<lambda>s. if s = asc ''42'' then Some (42::int) else None" True]
  show ?thesis using h o m f l by simp
qed

section \<open>Properties of the decoding loop\<close>

lemma readOctets_length: "readOctets j t = Some bs \<Longrightarrow> length t = 3 * j"
proof (induction j arbitrary: t bs)
  case 0
  then show ?case
    by (subst (asm) readOctets.simps) (simp split: if_splits)
next
  case (Suc j)
  from Suc.prems obtain p h l r b bs' where
    t: "t = p # h # l # r" and r: "readOctets j r = Some bs'"
    by (subst (asm) readOctets.simps) (auto split: list.splits if_splits option.splits)
  from Suc.IH [OF r] t show ?case by simp
qed

lemma parseHexOctet_take2: "parseHexOctet (take 2 t) = Some b \<Longrightarrow> 2 \<le> length t"
proof -
  assume "parseHexOctet (take 2 t) = Some b"
  then obtain h l where "take 2 t = [h, l]"
    by (auto simp: parseHexOctet_def split: list.splits if_splits)
  then have "length (take 2 t) = length [h, l]"
    by (simp only:)
  then show "2 \<le> length t" by simp
qed

lemma UTF16Encode_length: "length (UTF16Encode v) \<le> 2"
  by (simp add: UTF16Encode_def)

text \<open>A successful decoding returns its argument or a string shorter by two at least.\<close>

lemma decodeURIComponent_shrinks:
  "decodeURIComponent s = Some r \<Longrightarrow> r = s \<or> length r + 2 \<le> length s"
proof (induction s arbitrary: r rule: decodeURIComponent.induct)
  case 1
  then show ?case by simp
next
  case (2 c s)
  show ?case
  proof (cases "c \<noteq> 0x25")
    case True
    with "2.prems" obtain r' where r': "decodeURIComponent s = Some r'" "r = c # r'"
      by auto
    from "2.IH"(1) [OF True r'(1)] r'(2) show ?thesis by auto
  next
    case False
    with "2.prems" obtain b where b: "parseHexOctet (take 2 s) = Some b"
      by (auto split: option.splits)
    from parseHexOctet_take2 [OF b] have l2: "2 \<le> length s" .
    have any: "\<And>t u. decodeURIComponent t = Some u \<Longrightarrow> (u = t \<or> length u + 2 \<le> length t)
        \<Longrightarrow> length u \<le> length t"
      by auto
    show ?thesis
    proof (cases "leadingOnes b = 0")
      case True
      with False b "2.prems" obtain r' where
        r': "decodeURIComponent (drop 2 s) = Some r'" "r = b # r'"
        by auto
      from "2.IH"(2) [OF _ b True r'(1)] False have "length r' \<le> length (drop 2 s)"
        by auto
      with l2 r'(2) show ?thesis by auto
    next
      case n0: False
      with False b "2.prems" have n14: "\<not> (leadingOnes b = 1 \<or> 4 < leadingOnes b)"
        by (auto split: if_splits)
      with False b n0 "2.prems" obtain bs where
        bs: "readOctets (leadingOnes b - 1) (take (3 * (leadingOnes b - 1)) (drop 2 s)) = Some bs"
        by (auto split: option.splits)
      with False b n0 n14 "2.prems" obtain v where v: "utf8CodePoint (b # bs) = Some v"
        by (auto split: option.splits)
      with False b n0 n14 bs "2.prems" obtain r' where
        r': "decodeURIComponent (drop (3 * leadingOnes b - 1) s) = Some r'"
            "r = UTF16Encode v @ r'"
        by auto
      from "2.IH"(3) [OF _ b n0 n14 bs v r'(1)] False
      have le: "length r' \<le> length (drop (3 * leadingOnes b - 1) s)"
        by auto
      from readOctets_length [OF bs]
      have "length (take (3 * (leadingOnes b - 1)) (drop 2 s)) = 3 * (leadingOnes b - 1)" .
      then have "3 * (leadingOnes b - 1) \<le> length s - 2"
        by simp
      moreover from n0 n14 have "2 \<le> leadingOnes b" by arith
      ultimately have "3 * leadingOnes b - 1 \<le> length s" "5 \<le> 3 * leadingOnes b - 1"
        using l2 by arith+
      with le UTF16Encode_length [of v] r'(2) show ?thesis by auto
    qed
  qed
qed

lemma decodeLoop_rounds_le:
  "snd (decodeLoop decoded prev rounds) \<le> rounds + length decoded div 2 + 1"
proof (induction decoded prev rounds rule: decodeLoop.induct)
  case (1 decoded prev rounds)
  show ?case
  proof (cases "decoded \<noteq> prev")
    case False
    then show ?thesis
      by (subst decodeLoop.simps) simp
  next
    case True
    show ?thesis
    proof (cases "decodeURIComponent decoded")
      case None
      with True show ?thesis
        by (subst decodeLoop.simps) simp
    next
      case (Some d)
      from "1.IH" [OF True Some]
      have ih: "snd (decodeLoop d decoded (Suc rounds)) \<le> Suc rounds + length d div 2 + 1" .
      have step: "decodeLoop decoded prev rounds = decodeLoop d decoded (Suc rounds)"
        using True Some by (subst decodeLoop.simps) simp
      from decodeURIComponent_shrinks [OF Some] show ?thesis
      proof
        assume "d = decoded"
        then have "decodeLoop d decoded (Suc rounds) = (decoded, Suc rounds)"
          by (subst decodeLoop.simps) simp
        with step show ?thesis by simp
      next
        assume "length d + 2 \<le> length decoded"
        then have "length d div 2 + 1 \<le> length decoded div 2"
          by arith
        with ih step show ?thesis by simp
      qed
    qed
  qed
qed

lemma decodeLoop_result:
  assumes "decoded = prev \<longrightarrow> decodeURIComponent decoded = Some decoded"
  shows "(\<exists>k. decodeTimes k decoded = Some (fst (decodeLoop decoded prev rounds)))
       \<and> (decodeURIComponent (fst (decodeLoop decoded prev rounds))
             = Some (fst (decodeLoop decoded prev rounds))
          \<or> decodeURIComponent (fst (decodeLoop decoded prev rounds)) = None)"
  using assms
proof (induction decoded prev rounds rule: decodeLoop.induct)
  case (1 decoded prev rounds)
  show ?case
  proof (cases "decoded \<noteq> prev")
    case False
    then have r: "decodeLoop decoded prev rounds = (decoded, rounds)"
      by (subst decodeLoop.simps) simp
    have "decodeTimes 0 decoded = Some decoded" by simp
    with r False "1.prems" show ?thesis
      by (metis fst_conv)
  next
    case True
    show ?thesis
    proof (cases "decodeURIComponent decoded")
      case None
      with True have r: "decodeLoop decoded prev rounds = (decoded, Suc rounds)"
        by (subst decodeLoop.simps) simp
      have "decodeTimes 0 decoded = Some decoded" by simp
      with r None show ?thesis
        by (metis fst_conv)
    next
      case (Some d)
      have step: "decodeLoop decoded prev rounds = decodeLoop d decoded (Suc rounds)"
        using True Some by (subst decodeLoop.simps) simp
      have pre: "d = decoded \<longrightarrow> decodeURIComponent d = Some d"
        using Some by auto
      from "1.IH" [OF True Some pre] obtain k where
        k: "decodeTimes k d = Some (fst (decodeLoop d decoded (Suc rounds)))"
        and fx: "decodeURIComponent (fst (decodeLoop d decoded (Suc rounds)))
             = Some (fst (decodeLoop d decoded (Suc rounds)))
          \<or> decodeURIComponent (fst (decodeLoop d decoded (Suc rounds))) = None"
        by blast
      from k Some have "decodeTimes (Suc k) decoded = Some (fst (decodeLoop d decoded (Suc rounds)))"
        by simp
      with fx step show ?thesis
        by (metis)
    qed
  qed
qed

lemma decodeURIComponent_no_percent:
  "0x25 \<notin> set s \<Longrightarrow> decodeURIComponent s = Some s"
  by (induction s) auto

lemma layered_Suc: "layered (Suc k) = 0x25 # asc ''25'' @ tl (layered k)"
  by (simp add: layered_def)

lemma tl_layered_no_percent: "0x25 \<notin> set (tl (layered k))"
  by (induction k) (auto simp: layered_def asc_def)

lemma layered_hd: "layered k = 0x25 # tl (layered k)"
  by (simp add: layered_def)

lemma decode_layered_Suc: "decodeURIComponent (layered (Suc k)) = Some (layered k)"
proof -
  have "decodeURIComponent (tl (layered k)) = Some (tl (layered k))"
    using tl_layered_no_percent by (rule decodeURIComponent_no_percent)
  then have "decodeURIComponent (layered (Suc k)) = Some (0x25 # tl (layered k))"
    by (simp add: layered_Suc asc_def parseHexOctet_def isHexDigit_def isDigit_def
        hexDigitValue_def leadingOnes_def)
  with layered_hd [of k] show ?thesis by simp
qed

lemma decode_layered_0: "decodeURIComponent (layered 0) = Some (asc ''A'')"
  by (simp add: layered_def asc_def parseHexOctet_def isHexDigit_def isDigit_def
      hexDigitValue_def leadingOnes_def)

lemma length_layered: "length (layered k) = 2 * k + 3"
  by (induction k) (auto simp: layered_def asc_def)

lemma decodeLoop_layered:
  "prev \<noteq> layered k \<Longrightarrow> decodeLoop (layered k) prev rounds = (asc ''A'', rounds + k + 2)"
proof (induction k arbitrary: prev rounds)
  case 0
  have ne: "asc ''A'' \<noteq> layered 0"
    by (simp add: layered_def asc_def)
  have a: "decodeURIComponent (asc ''A'') = Some (asc ''A'')"
    by (simp add: asc_def)
  have "decodeLoop (layered 0) prev rounds = decodeLoop (asc ''A'') (layered 0) (Suc rounds)"
    using 0 decode_layered_0 by (subst decodeLoop.simps) auto
  also have "\<dots> = decodeLoop (asc ''A'') (asc ''A'') (Suc (Suc rounds))"
    using ne a by (subst decodeLoop.simps) simp
  also have "\<dots> = (asc ''A'', Suc (Suc rounds))"
    by (subst decodeLoop.simps) simp
  finally show ?case by simp
next
  case (Suc k)
  have ne: "layered (Suc k) \<noteq> layered k"
  proof
    assume "layered (Suc k) = layered k"
    then have "length (layered (Suc k)) = length (layered k)" by simp
    then show False by (simp add: length_layered)
  qed
  have "decodeLoop (layered (Suc k)) prev rounds = decodeLoop (layered k) (layered (Suc k)) (Suc rounds)"
    using Suc.prems decode_layered_Suc [of k] by (subst decodeLoop.simps) auto
  also have "\<dots> = (asc ''A'', Suc rounds + k + 2)"
    using ne by (rule Suc.IH)
  finally show ?case by simp
qed

text \<open>
  Claim C3, as the code has it. The loop has no fixed bound on its rounds: the number of
  calls of \<open>decodeURIComponent\<close> is at most half the length of the input plus one,
  and for every number there is an input that takes more rounds. What the loop returns
  is the input decoded some number of times, each time with success, and it is a fixed
  point of the decoding or a string on which the decoding fails.
\<close>

theorem decodeLoop_rounds_grow_with_input:
  "snd (decodeLoop s [] 0) \<le> length s div 2 + 1
   \<and> (\<exists>k. decodeTimes k s = Some (fst (decodeLoop s [] 0)))
   \<and> (decodeURIComponent (fst (decodeLoop s [] 0)) = Some (fst (decodeLoop s [] 0))
      \<or> decodeURIComponent (fst (decodeLoop s [] 0)) = None)
   \<and> (\<exists>t. N < snd (decodeLoop t [] 0))"
proof -
  have a: "snd (decodeLoop s [] 0) \<le> length s div 2 + 1"
    using decodeLoop_rounds_le [of s "[]" 0] by simp
  have pre: "s = [] \<longrightarrow> decodeURIComponent s = Some s"
    by simp
  note b = decodeLoop_result [OF pre, of 0]
  have "[] \<noteq> layered N"
    by (simp add: layered_def)
  then have "decodeLoop (layered N) [] 0 = (asc ''A'', 0 + N + 2)"
    by (rule decodeLoop_layered)
  then have "N < snd (decodeLoop (layered N) [] 0)"
    by simp
  then have c: "\<exists>t. N < snd (decodeLoop t [] 0)" ..
  from a conjunct1 [OF b] conjunct2 [OF b] c show ?thesis
    by (intro conjI) assumption+
qed

text \<open>
  The claim as the specification words it (at most a fixed number of rounds, such as 10)
  fails on \<open>%41\<close> with its \<open>%\<close> encoded ten times over: the loop decodes it in
  twelve rounds.
\<close>

theorem decodeLoop_twelve_rounds_counterexample:
  "decodeLoop (asc ''%2525252525252525252541'') [] 0 = (asc ''A'', 12)
   \<and> \<not> snd (decodeLoop (asc ''%2525252525252525252541'') [] 0) \<le> 10"
proof -
  have l: "asc ''%2525252525252525252541'' = layered 10"
    by (simp add: layered_def asc_def eval_nat_numeral)
  have "[] \<noteq> layered 10"
    by (simp add: layered_def)
  then have "decodeLoop (layered 10) [] 0 = (asc ''A'', 0 + 10 + 2)"
    by (rule decodeLoop_layered)
  with l show ?thesis by simp
qed

section \<open>Properties of path validation\<close>

lemmas path_eval =
  validatePath_def Let_def normalizeNFC_def decodeLoop.simps readOctets.simps
  parseHexOctet_def isHexDigit_def isDigit_def isLower_def isUpper_def hexDigitValue_def
  leadingOnes_def utf8CodePoint_def isContinuation_def UTF16Encode_def
  path_resolve_def path_normalize_def normalizeString_def normStep_def isAbsolute_def
  sep_def dotdot_def symlinkCheck_def startsWith_def inSandbox_def asc_def

text \<open>The roots of the source are normalized: \<open>path.normalize\<close> leaves them as they are.\<close>

lemma ALLOWED_ROOTS_normalized:
  "\<forall>root \<in> set ALLOWED_ROOTS. path_normalize root = root"
  by (simp add: ALLOWED_ROOTS_def path_normalize_def normalizeString_def normStep_def
      isAbsolute_def sep_def dotdot_def asc_def Let_def)

lemma pipeline_etc_passwd:
  "path_normalize (path_resolve (cwd e)
     (fst (decodeLoop (normalizeNFC e (filter (\<lambda>c. c \<noteq> 0) (asc ''/root/allowed/../../../etc/passwd''))) [] 0)))
   = asc ''/etc/passwd''"
  by (simp add: path_eval)

lemma pipeline_etc:
  "path_normalize (path_resolve (cwd e)
     (fst (decodeLoop (normalizeNFC e (filter (\<lambda>c. c \<noteq> 0) (asc ''/root/allowed/../../../etc''))) [] 0)))
   = asc ''/etc''"
  by (simp add: path_eval)

lemma outside_etc_passwd: "\<not> inSandbox [asc ''/root/allowed''] (asc ''/etc/passwd'')"
  by (simp add: path_eval)

lemma outside_etc: "\<not> inSandbox [asc ''/root/allowed''] (asc ''/etc'')"
  by (simp add: path_eval)

text \<open>
  The claim as the specification words it (a path resolved outside every root always
  fails with the sandbox error) fails where the resolved path is a symbolic link: with
  \<open>/etc\<close> a link and \<open>/root/allowed\<close> the only root, \<open>/root/allowed/../../../etc\<close>
  resolves to \<open>/etc\<close>, outside the root, and is refused by the symlink check, which
  comes first.
\<close>

theorem validatePath_symlink_outside_counterexample:
  "\<not> inSandbox [asc ''/root/allowed'']
       (path_normalize (path_resolve (cwd etcLink)
         (fst (decodeLoop (normalizeNFC etcLink
            (filter (\<lambda>c. c \<noteq> 0) (asc ''/root/allowed/../../../etc''))) [] 0))))
   \<and> validatePath etcLink [asc ''/root/allowed''] (JString (asc ''/root/allowed/../../../etc''))
       = Inl SymlinkNotAllowed
   \<and> validatePath etcLink [asc ''/root/allowed''] (JString (asc ''/root/allowed/../../../etc''))
       \<noteq> Inl OutsideAllowed"
proof -
  have s: "symlinkCheck etcLink (asc ''/etc'') = Some SymlinkNotAllowed"
    by (simp add: symlinkCheck_def etcLink_def)
  have n: "asc ''/root/allowed/../../../etc'' \<noteq> []"
    by (simp add: asc_def)
  have v: "validatePath etcLink [asc ''/root/allowed''] (JString (asc ''/root/allowed/../../../etc''))
       = Inl SymlinkNotAllowed"
    unfolding validatePath_def Let_def
    by (simp only: pipeline_etc s n jsvalue.case option.case if_False)
  show ?thesis
    by (simp only: pipeline_etc v outside_etc) simp
qed

text \<open>
  Claim C1, as the code has it. A path that \<open>validatePath\<close> returns equals the
  normalized form of some root or starts with it followed by the separator; where the
  roots are normalized, as those of the source are, it equals a root or starts with the
  root followed by the separator. A non-empty
  input whose resolved, normalized path (nulls stripped, NFC, repeated percent-decoding,
  \<open>.\<close> and \<open>..\<close> resolved) is outside every root is never accepted: it fails with
  the sandbox error when the symlink check lets the path through, and with the error of
  the symlink check otherwise. With \<open>/root/allowed\<close> the only root,
  \<open>/root/allowed/../../../etc/passwd\<close> fails with the sandbox error wherever
  \<open>/etc/passwd\<close> passes the symlink check.
\<close>

theorem validatePath_sandbox_gate:
  "(validatePath e roots v = Inr out \<longrightarrow>
      (\<exists>root \<in> set roots. out = path_normalize root
          \<or> startsWith out (path_normalize root @ [sep])))
   \<and> ((\<forall>root \<in> set roots. path_normalize root = root) \<and> validatePath e roots v = Inr out \<longrightarrow>
      (\<exists>root \<in> set roots. out = root \<or> startsWith out (root @ [sep])))
   \<and> (v = JString raw \<and> raw \<noteq> []
        \<and> resolved = path_normalize (path_resolve (cwd e)
             (fst (decodeLoop (normalizeNFC e (filter (\<lambda>c. c \<noteq> 0) raw)) [] 0)))
        \<and> \<not> inSandbox roots resolved \<longrightarrow>
      (symlinkCheck e resolved = None \<longrightarrow> validatePath e roots v = Inl OutsideAllowed)
      \<and> (\<forall>err. symlinkCheck e resolved = Some err \<longrightarrow> validatePath e roots v = Inl err)
      \<and> validatePath e roots v \<noteq> Inr out)
   \<and> (symlinkCheck e (asc ''/etc/passwd'') = None \<longrightarrow>
        validatePath e [asc ''/root/allowed'']
          (JString (asc ''/root/allowed/../../../etc/passwd'')) = Inl OutsideAllowed)"
proof (intro conjI impI)
  assume ok: "validatePath e roots v = Inr out"
  then have "inSandbox roots out"
    by (auto simp: validatePath_def Let_def split: jsvalue.splits if_splits option.splits)
  then show "\<exists>root \<in> set roots. out = path_normalize root
          \<or> startsWith out (path_normalize root @ [sep])"
    by (simp add: inSandbox_def list_ex_iff)
next
  assume n: "(\<forall>root \<in> set roots. path_normalize root = root) \<and> validatePath e roots v = Inr out"
  then have "inSandbox roots out"
    by (auto simp: validatePath_def Let_def split: jsvalue.splits if_splits option.splits)
  then obtain root where "root \<in> set roots"
    and "out = path_normalize root \<or> startsWith out (path_normalize root @ [sep])"
    by (auto simp: inSandbox_def list_ex_iff)
  with n show "\<exists>root \<in> set roots. out = root \<or> startsWith out (root @ [sep])"
    by auto
next
  assume a: "v = JString raw \<and> raw \<noteq> []
        \<and> resolved = path_normalize (path_resolve (cwd e)
             (fst (decodeLoop (normalizeNFC e (filter (\<lambda>c. c \<noteq> 0) raw)) [] 0)))
        \<and> \<not> inSandbox roots resolved"
  {
    assume "symlinkCheck e resolved = None"
    with a show "validatePath e roots v = Inl OutsideAllowed"
      by (auto simp: validatePath_def Let_def)
  }
  from a show "\<forall>err. symlinkCheck e resolved = Some err \<longrightarrow> validatePath e roots v = Inl err"
    by (auto simp: validatePath_def Let_def)
  from a show "validatePath e roots v \<noteq> Inr out"
    by (auto simp: validatePath_def Let_def split: option.splits)
next
  assume s: "symlinkCheck e (asc ''/etc/passwd'') = None"
  have n: "asc ''/root/allowed/../../../etc/passwd'' \<noteq> []"
    by (simp add: asc_def)
  show "validatePath e [asc ''/root/allowed'']
          (JString (asc ''/root/allowed/../../../etc/passwd'')) = Inl OutsideAllowed"
    unfolding validatePath_def Let_def
    by (simp only: pipeline_etc_passwd s n outside_etc_passwd jsvalue.case option.case
        if_False if_True not_False_eq_True)
qed

lemma pipeline_allowed_file:
  "path_normalize (path_resolve (cwd e)
     (fst (decodeLoop (normalizeNFC e (filter (\<lambda>c. c \<noteq> 0) (asc ''/root/allowed/notes.txt''))) [] 0)))
   = asc ''/root/allowed/notes.txt''"
  by (simp add: path_eval)

theorem validatePath_sandbox_gate_witness:
  "validatePath noFiles [asc ''/root/allowed''] (JString (asc ''/root/allowed/notes.txt''))
      = Inr (asc ''/root/allowed/notes.txt'')
   \<and> (\<exists>root \<in> set [asc ''/root/allowed'']. asc ''/root/allowed/notes.txt'' = path_normalize root
          \<or> startsWith (asc ''/root/allowed/notes.txt'') (path_normalize root @ [sep]))
   \<and> symlinkCheck noFiles (asc ''/etc/passwd'') = None
   \<and> \<not> inSandbox [asc ''/root/allowed''] (asc ''/etc/passwd'')
   \<and> validatePath noFiles [asc ''/root/allowed'']
        (JString (asc ''/root/allowed/../../../etc/passwd'')) = Inl OutsideAllowed"
proof -
  have s1: "symlinkCheck noFiles (asc ''/root/allowed/notes.txt'') = None"
    by (simp add: symlinkCheck_def noFiles_def asc_def)
  have n1: "asc ''/root/allowed/notes.txt'' \<noteq> []"
    by (simp add: asc_def)
  have i1: "inSandbox [asc ''/root/allowed''] (asc ''/root/allowed/notes.txt'')"
    by (simp add: path_eval)
  have v1: "validatePath noFiles [asc ''/root/allowed''] (JString (asc ''/root/allowed/notes.txt''))
      = Inr (asc ''/root/allowed/notes.txt'')"
    unfolding validatePath_def Let_def
    by (simp only: pipeline_allowed_file s1 n1 i1 jsvalue.case option.case
        if_False if_True not_True_eq_False)
  note gate = validatePath_sandbox_gate
    [of noFiles "[asc ''/root/allowed'']" "JString (asc ''/root/allowed/notes.txt'')"
        "asc ''/root/allowed/notes.txt''" "[]" "[]"]
  from gate v1
  have p1: "\<exists>root \<in> set [asc ''/root/allowed'']. asc ''/root/allowed/notes.txt'' = path_normalize root
          \<or> startsWith (asc ''/root/allowed/notes.txt'') (path_normalize root @ [sep])"
    by blast
  have s2: "symlinkCheck noFiles (asc ''/etc/passwd'') = None"
    by (simp add: symlinkCheck_def noFiles_def asc_def)
  from gate s2
  have v2: "validatePath noFiles [asc ''/root/allowed'']
        (JString (asc ''/root/allowed/../../../etc/passwd'')) = Inl OutsideAllowed"
    by blast
  from v1 p1 s2 outside_etc_passwd v2 show ?thesis
    by (intro conjI) assumption+
qed

text \<open>
  Claim C5 does not hold of the code. The nulls are stripped before the percent-decoding,
  so a null written \<open>%00\<close> is decoded after the stripping and stays: the input below
  holds a null character, is accepted under the roots of the source, and the path
  returned holds a null character.
\<close>

theorem validatePath_decoded_null_survives:
  "0 \<in> set (0 # asc ''/Users/macbook/Documents/Dropository/a%00b'')
   \<and> validatePath noFiles ALLOWED_ROOTS
        (JString (0 # asc ''/Users/macbook/Documents/Dropository/a%00b''))
       = Inr (asc ''/Users/macbook/Documents/Dropository/a'' @ 0 # asc ''b'')
   \<and> 0 \<in> set (asc ''/Users/macbook/Documents/Dropository/a'' @ 0 # asc ''b'')"
  by (simp add: path_eval noFiles_def ALLOWED_ROOTS_def)

section \<open>Validated paths as fixed points\<close>

lemma splitOn_not_Nil: "splitOn c s \<noteq> []"
  by (induction s) (auto split: list.splits)

lemma splitOn_Cons_sep: "splitOn c (c # s) = [] # splitOn c s"
  by simp

lemma splitOn_Cons_other:
  "x \<noteq> c \<Longrightarrow> splitOn c (x # s) = (x # hd (splitOn c s)) # tl (splitOn c s)"
  using splitOn_not_Nil [of c s] by (cases "splitOn c s") auto

lemma splitOn_no_sep: "w \<in> set (splitOn c s) \<Longrightarrow> c \<notin> set w"
proof (induction s arbitrary: w)
  case Nil
  then show ?case by simp
next
  case (Cons x s)
  show ?case
  proof (cases "x = c")
    case True
    with Cons show ?thesis by auto
  next
    case False
    obtain v vs where sp: "splitOn c s = v # vs"
      using splitOn_not_Nil [of c s] by (cases "splitOn c s") auto
    with False Cons.prems have "w = x # v \<or> w \<in> set vs"
      by auto
    then show ?thesis
    proof
      assume "w = x # v"
      moreover have "c \<notin> set v" using Cons.IH [of v] sp by simp
      ultimately show ?thesis using False by auto
    next
      assume "w \<in> set vs"
      then show ?thesis using Cons.IH [of w] sp by simp
    qed
  qed
qed

lemma splitOn_word: "c \<notin> set w \<Longrightarrow> splitOn c w = [w]"
  by (induction w) auto

lemma splitOn_word_sep: "c \<notin> set w \<Longrightarrow> splitOn c (w @ c # s) = w # splitOn c s"
  by (induction w) auto

lemma splitOn_snoc_sep: "splitOn c (s @ [c]) = splitOn c s @ [] # []"
proof (induction s)
  case Nil
  then show ?case by simp
next
  case (Cons x s)
  obtain v vs where sp: "splitOn c s = v # vs"
    using splitOn_not_Nil [of c s] by (cases "splitOn c s") auto
  with Cons show ?case by auto
qed

lemma splitOn_joinWith:
  "ws \<noteq> [] \<Longrightarrow> \<forall>w \<in> set ws. c \<notin> set w \<Longrightarrow> splitOn c (joinWith c ws) = ws"
proof (induction c ws rule: joinWith.induct)
  case (1 c)
  then show ?case by simp
next
  case (2 c w)
  then show ?case by (simp add: splitOn_word)
next
  case (3 c w v ws)
  then have "splitOn c (joinWith c (v # ws)) = v # ws" by simp
  moreover from 3 have "c \<notin> set w" by simp
  ultimately show ?case by (simp add: splitOn_word_sep)
qed

lemma normStep_normal: "normalSegment seg \<Longrightarrow> normStep a res seg = seg # res"
  by (simp add: normStep_def normalSegment_def)

lemma foldl_normStep_normal:
  "\<forall>seg \<in> set segs. normalSegment seg \<Longrightarrow> foldl (normStep a) res segs = rev segs @ res"
  by (induction segs arbitrary: res) (auto simp: normStep_normal)

lemma normStep_keeps_normal:
  assumes res: "\<forall>w \<in> set res. normalSegment w" and seg: "sep \<notin> set seg"
  shows "\<forall>w \<in> set (normStep False res seg). normalSegment w"
proof (cases "seg = [] \<or> seg = [0x2E]")
  case True
  then have "normStep False res seg = res"
    by (simp add: normStep_def)
  with res show ?thesis by simp
next
  case skip: False
  show ?thesis
  proof (cases "seg = dotdot")
    case True
    with skip have "set (normStep False res seg) \<subseteq> set res"
      by (cases res) (auto simp: normStep_def)
    with res show ?thesis by blast
  next
    case False
    with skip have "normStep False res seg = seg # res"
      by (simp add: normStep_def)
    moreover from skip False seg have "normalSegment seg"
      by (simp add: normalSegment_def)
    ultimately show ?thesis using res by simp
  qed
qed

lemma foldl_normStep_keeps_normal:
  assumes "\<forall>w \<in> set res. normalSegment w" and "\<forall>seg \<in> set segs. sep \<notin> set seg"
  shows "\<forall>w \<in> set (foldl (normStep False) res segs). normalSegment w"
  using assms
proof (induction segs arbitrary: res)
  case Nil
  then show ?case by simp
next
  case (Cons seg segs)
  from Cons.prems have "\<forall>w \<in> set (normStep False res seg). normalSegment w"
    by (intro normStep_keeps_normal) auto
  with Cons show ?case by simp
qed

text \<open>What \<open>normalizeString\<close> returns for an absolute path is a join of normal segments.\<close>

lemma normalizeString_normal:
  "\<exists>segs. (\<forall>w \<in> set segs. normalSegment w) \<and> normalizeString pth False = joinWith sep segs"
proof -
  let ?st = "foldl (normStep False) [] (splitOn sep pth)"
  have "\<forall>w \<in> set ?st. normalSegment w"
    by (rule foldl_normStep_keeps_normal) (auto dest: splitOn_no_sep)
  then have "\<forall>w \<in> set (rev ?st). normalSegment w" by simp
  then show ?thesis
    unfolding normalizeString_def by blast
qed

lemma normStep_empty: "normStep a res [] = res"
  by (simp add: normStep_def)

lemma joinWith_Nil_iff:
  "\<forall>w \<in> set segs. normalSegment w \<Longrightarrow> joinWith c segs = [] \<longleftrightarrow> segs = []"
  by (induction segs rule: induct_list012) (auto simp: normalSegment_def)

lemma last_joinWith:
  "segs \<noteq> [] \<Longrightarrow> \<forall>w \<in> set segs. normalSegment w \<Longrightarrow> last (joinWith sep segs) \<noteq> sep"
proof (induction segs rule: induct_list012)
  case 1
  then show ?case by simp
next
  case (2 w)
  then have "w \<noteq> []" "sep \<notin> set w"
    by (auto simp: normalSegment_def)
  then show ?case
    by (metis joinWith.simps(2) last_in_set)
next
  case (3 w v ws)
  then have "last (joinWith sep (v # ws)) \<noteq> sep" by simp
  moreover from 3 have "joinWith sep (v # ws) \<noteq> []"
    by (simp add: joinWith_Nil_iff)
  ultimately show ?case by simp
qed

lemma normalizeString_joined:
  assumes "\<forall>w \<in> set segs. normalSegment w"
  shows "normalizeString (sep # joinWith sep segs) False = joinWith sep segs"
    and "normalizeString (sep # joinWith sep segs @ [sep]) False = joinWith sep segs"
proof -
  have nosep: "\<forall>w \<in> set segs. sep \<notin> set w"
    using assms by (simp add: normalSegment_def)
  have sp: "foldl (normStep False) [] (splitOn sep (joinWith sep segs)) = rev segs"
  proof (cases "segs = []")
    case True
    then show ?thesis by (simp add: normStep_empty)
  next
    case False
    from False nosep have "splitOn sep (joinWith sep segs) = segs"
      by (rule splitOn_joinWith)
    with assms show ?thesis by (simp add: foldl_normStep_normal)
  qed
  show "normalizeString (sep # joinWith sep segs) False = joinWith sep segs"
    unfolding normalizeString_def
    by (simp add: normStep_empty sp)
  show "normalizeString (sep # joinWith sep segs @ [sep]) False = joinWith sep segs"
    unfolding normalizeString_def
    using splitOn_snoc_sep [of sep "joinWith sep segs"]
    by (simp add: normStep_empty sp)
qed

lemma path_normalize_joined:
  assumes "\<forall>w \<in> set segs. normalSegment w"
  shows "path_normalize (sep # joinWith sep segs) = sep # joinWith sep segs"
proof (cases "segs = []")
  case True
  then show ?thesis
    using normalizeString_joined(1) [OF assms]
    by (simp add: path_normalize_def isAbsolute_def Let_def)
next
  case False
  with assms have ne: "joinWith sep segs \<noteq> []"
    by (simp add: joinWith_Nil_iff)
  from False assms have "last (joinWith sep segs) \<noteq> sep"
    by (rule last_joinWith)
  with ne show ?thesis
    using normalizeString_joined(1) [OF assms]
    by (simp add: path_normalize_def isAbsolute_def Let_def)
qed

lemma path_resolve_joined:
  assumes "\<forall>w \<in> set segs. normalSegment w"
  shows "path_resolve c (sep # joinWith sep segs) = sep # joinWith sep segs"
  using normalizeString_joined(2) [OF assms]
  by (simp add: path_resolve_def isAbsolute_def Let_def)

lemma path_resolve_absolute:
  assumes "isAbsolute c"
  shows "\<exists>segs. (\<forall>w \<in> set segs. normalSegment w) \<and> path_resolve c p = sep # joinWith sep segs"
  using assms normalizeString_normal
  by (simp add: path_resolve_def Let_def)

lemma decodeLoop_no_percent:
  assumes "0x25 \<notin> set s"
  shows "fst (decodeLoop s [] 0) = s"
proof (cases "s = []")
  case True
  then show ?thesis by (subst decodeLoop.simps) simp
next
  case False
  have d: "decodeURIComponent s = Some s"
    using assms by (induction s) auto
  have "decodeLoop s [] 0 = decodeLoop s s 1"
    using False d by (subst decodeLoop.simps) simp
  also have "\<dots> = (s, 1)"
    by (subst decodeLoop.simps) simp
  finally show ?thesis by simp
qed

text \<open>
  Claim C4, as the code has it. In a process whose working directory is absolute, a path
  that \<open>validatePath\<close> returned and that the three textual steps leave as it is (it
  holds no null character, the NFC step returns it unchanged, and the decoding loop
  returns it unchanged, as for a path without \<open>%\<close>) validates again, to itself: the
  returned path is a separator followed by normal segments joined by separators, which
  \<open>path.resolve\<close> and \<open>path.normalize\<close> do not change, and the symlink check and the
  sandbox check see the same path as before.
\<close>

theorem validatePath_fixed_point_when_stable:
  assumes ok: "validatePath e roots (JString p) = Inr q"
    and cwd: "isAbsolute (cwd e)"
    and nul: "0 \<notin> set q"
    and nfc: "normalizeNFC e q = q"
    and dec: "fst (decodeLoop q [] 0) = q"
  shows "validatePath e roots (JString q) = Inr q"
proof -
  let ?d = "fst (decodeLoop (normalizeNFC e (filter (\<lambda>c. c \<noteq> 0) p)) [] 0)"
  from ok have q: "q = path_normalize (path_resolve (cwd e) ?d)"
    and sym: "symlinkCheck e q = None" and inside: "inSandbox roots q"
    by (auto simp: validatePath_def Let_def split: if_splits option.splits)
  from path_resolve_absolute [OF cwd] obtain segs where
    segs: "\<forall>w \<in> set segs. normalSegment w"
    and res: "path_resolve (cwd e) ?d = sep # joinWith sep segs"
    by blast
  from q res path_normalize_joined [OF segs] have qj: "q = sep # joinWith sep segs"
    by simp
  have r: "path_resolve (cwd e) q = q"
    unfolding qj by (rule path_resolve_joined [OF segs])
  have n: "path_normalize q = q"
    unfolding qj by (rule path_normalize_joined [OF segs])
  from nul have f: "filter (\<lambda>c. c \<noteq> 0) q = q"
    by (induction q) auto
  from qj have ne: "q \<noteq> []" by simp
  show ?thesis
    unfolding validatePath_def Let_def
    using ne f nfc dec r n sym inside by simp
qed

theorem validatePath_fixed_point_when_stable_witness:
  "validatePath noFiles [asc ''/root/allowed'']
      (JString (asc ''/root/allowed/./docs/../notes.txt'')) = Inr (asc ''/root/allowed/notes.txt'')
   \<and> isAbsolute (cwd noFiles)
   \<and> 0 \<notin> set (asc ''/root/allowed/notes.txt'')
   \<and> normalizeNFC noFiles (asc ''/root/allowed/notes.txt'') = asc ''/root/allowed/notes.txt''
   \<and> fst (decodeLoop (asc ''/root/allowed/notes.txt'') [] 0) = asc ''/root/allowed/notes.txt''
   \<and> validatePath noFiles [asc ''/root/allowed'']
      (JString (asc ''/root/allowed/notes.txt'')) = Inr (asc ''/root/allowed/notes.txt'')"
proof -
  have v: "validatePath noFiles [asc ''/root/allowed'']
      (JString (asc ''/root/allowed/./docs/../notes.txt'')) = Inr (asc ''/root/allowed/notes.txt'')"
    by (simp add: path_eval noFiles_def)
  have c: "isAbsolute (cwd noFiles)"
    by (simp add: isAbsolute_def noFiles_def asc_def sep_def)
  have z: "0 \<notin> set (asc ''/root/allowed/notes.txt'')"
    by (simp add: asc_def)
  have n: "normalizeNFC noFiles (asc ''/root/allowed/notes.txt'') = asc ''/root/allowed/notes.txt''"
    by (simp add: normalizeNFC_def asc_def)
  have "0x25 \<notin> set (asc ''/root/allowed/notes.txt'')"
    by (simp add: asc_def)
  then have d: "fst (decodeLoop (asc ''/root/allowed/notes.txt'') [] 0) = asc ''/root/allowed/notes.txt''"
    by (rule decodeLoop_no_percent)
  from validatePath_fixed_point_when_stable [OF v c z n d] v c z n d
  show ?thesis
    by (intro conjI) assumption+
qed

text \<open>
  The claim as the specification words it (every validated path validates to itself)
  fails when the decoding loop stopped on an error that the resolution then removed:
  \<open>%zz\<close> makes the decoding of \<open>/root/allowed/%41/x%zz/..\<close> fail, so \<open>%41\<close> stays;
  the segment with \<open>%zz\<close> is cancelled by \<open>..\<close>; fed again, the result decodes
  to \<open>/root/allowed/A\<close>. It fails as well when the decoding produced a null
  character, which the second pass strips.
\<close>

theorem validatePath_not_idempotent_counterexample:
  "validatePath noFiles [asc ''/root/allowed''] (JString (asc ''/root/allowed/%41/x%zz/..''))
      = Inr (asc ''/root/allowed/%41'')
   \<and> validatePath noFiles [asc ''/root/allowed''] (JString (asc ''/root/allowed/%41''))
      = Inr (asc ''/root/allowed/A'')
   \<and> asc ''/root/allowed/A'' \<noteq> asc ''/root/allowed/%41''
   \<and> validatePath noFiles [asc ''/root/allowed''] (JString (asc ''/root/allowed/a%00b''))
      = Inr (asc ''/root/allowed/a'' @ 0 # asc ''b'')
   \<and> validatePath noFiles [asc ''/root/allowed''] (JString (asc ''/root/allowed/a'' @ 0 # asc ''b''))
      = Inr (asc ''/root/allowed/ab'')
   \<and> asc ''/root/allowed/ab'' \<noteq> asc ''/root/allowed/a'' @ 0 # asc ''b''"
proof -
  have a: "validatePath noFiles [asc ''/root/allowed''] (JString (asc ''/root/allowed/%41/x%zz/..''))
      = Inr (asc ''/root/allowed/%41'')"
    by (simp add: path_eval noFiles_def)
  have b: "validatePath noFiles [asc ''/root/allowed''] (JString (asc ''/root/allowed/%41''))
      = Inr (asc ''/root/allowed/A'')"
    by (simp add: path_eval noFiles_def)
  have c: "asc ''/root/allowed/A'' \<noteq> asc ''/root/allowed/%41''"
    by (simp add: asc_def)
  have d: "validatePath noFiles [asc ''/root/allowed''] (JString (asc ''/root/allowed/a%00b''))
      = Inr (asc ''/root/allowed/a'' @ 0 # asc ''b'')"
    by (simp add: path_eval noFiles_def)
  have e: "validatePath noFiles [asc ''/root/allowed''] (JString (asc ''/root/allowed/a'' @ 0 # asc ''b''))
      = Inr (asc ''/root/allowed/ab'')"
    by (simp add: path_eval noFiles_def)
  have f: "asc ''/root/allowed/ab'' \<noteq> asc ''/root/allowed/a'' @ 0 # asc ''b''"
    by (simp add: asc_def)
  from a b c d e f show ?thesis
    by (intro conjI) assumption+
qed

section \<open>Properties of the mediated tool calls\<close>

lemma validate_f_txt:
  "validatePath noFiles ALLOWED_ROOTS (JString (asc ''/Users/macbook/Documents/Dropository/f.txt''))
     = Inr (asc ''/Users/macbook/Documents/Dropository/f.txt'')"
  by (simp add: path_eval noFiles_def ALLOWED_ROOTS_def)

lemma validate_Dropository:
  "validatePath noFiles ALLOWED_ROOTS (JString (asc ''/Users/macbook/Documents/Dropository''))
     = Inr (asc ''/Users/macbook/Documents/Dropository'')"
  by (simp add: path_eval noFiles_def ALLOWED_ROOTS_def)

lemma sanitize_xattr_message:
  "sanitizeErrorMessage (asc ''Command failed: xattr /Users/macbook/Documents/Dropository/f.txt'')
     = asc ''Command failed: xattr [path]''"
  by (simp add: sanitize_eval)

lemma sanitize_mdfind_message:
  "sanitizeErrorMessage (asc ''Command failed: mdfind -onlyin /Users/macbook/Documents/Dropository q'')
     = asc ''Command failed: mdfind -onlyin [path] q''"
  by (simp add: sanitize_eval)

lemma spotlightSearch_failure_sanitized:
  assumes "spotlightSearch e t roots query scope limit attrs = Inl msg"
  shows "\<exists>m. msg = asc ''Spotlight search failed: '' @ sanitizeErrorMessage m"
  using assms
  by (auto simp: spotlightSearch_def Let_def split: exec_result.splits)

lemma listXattrs_failure_raw:
  assumes "snd (listXattrs e t roots filePath) = Inl msg"
  shows "(\<exists>err. validatePath e roots filePath = Inl err \<and> msg = errorMessage err)
       \<or> (\<exists>p m. validatePath e roots filePath = Inr p
              \<and> execFile t (asc ''xattr'') [p] = ExecError m
              \<and> msg = asc ''Failed to list xattrs: '' @ m)"
  using assms
  by (auto simp: listXattrs_def split: sum.splits exec_result.splits if_splits)

text \<open>
  Claim C2 does not hold of the code. When the tool fails on a file of the sandbox,
  \<open>listXattrs\<close> throws an error whose message is the message of the tool as it is,
  with the path in it; the sanitizer would have replaced the path. \<open>spotlightSearch\<close>,
  under the same failure, returns the sanitized message.
\<close>

theorem listXattrs_raw_tool_message:
  "snd (listXattrs noFiles failingTool ALLOWED_ROOTS
          (JString (asc ''/Users/macbook/Documents/Dropository/f.txt'')))
     = Inl (asc ''Failed to list xattrs: Command failed: xattr /Users/macbook/Documents/Dropository/f.txt'')
   \<and> asc ''Failed to list xattrs: '' @ sanitizeErrorMessage
         (asc ''Command failed: xattr /Users/macbook/Documents/Dropository/f.txt'')
       = asc ''Failed to list xattrs: Command failed: xattr [path]''
   \<and> spotlightSearch noFiles failingTool ALLOWED_ROOTS (asc ''q'')
         [JString (asc ''/Users/macbook/Documents/Dropository'')] 100 []
       = Inl (asc ''Spotlight search failed: Command failed: mdfind -onlyin [path] q'')"
proof -
  have a: "snd (listXattrs noFiles failingTool ALLOWED_ROOTS
          (JString (asc ''/Users/macbook/Documents/Dropository/f.txt'')))
     = Inl (asc ''Failed to list xattrs: Command failed: xattr /Users/macbook/Documents/Dropository/f.txt'')"
    unfolding listXattrs_def validate_f_txt
    by (simp add: failingTool_def asc_def startsWith_def)
  have b: "asc ''Failed to list xattrs: '' @ sanitizeErrorMessage
         (asc ''Command failed: xattr /Users/macbook/Documents/Dropository/f.txt'')
       = asc ''Failed to list xattrs: Command failed: xattr [path]''"
    unfolding sanitize_xattr_message by (simp add: asc_def)
  have c: "spotlightSearch noFiles failingTool ALLOWED_ROOTS (asc ''q'')
         [JString (asc ''/Users/macbook/Documents/Dropository'')] 100 []
       = Inl (asc ''Spotlight search failed: Command failed: mdfind -onlyin [path] q'')"
  proof -
    have args: "concat (map (\<lambda>dir. case validatePath noFiles ALLOWED_ROOTS dir of
                   Inr validatedDir \<Rightarrow> [asc ''-onlyin'', validatedDir] | Inl _ \<Rightarrow> [])
                 [JString (asc ''/Users/macbook/Documents/Dropository'')]) @ [asc ''q'']
        = [asc ''-onlyin'', asc ''/Users/macbook/Documents/Dropository'', asc ''q'']"
      by (simp add: validate_Dropository)
    have msg: "execFile failingTool (asc ''mdfind'')
          [asc ''-onlyin'', asc ''/Users/macbook/Documents/Dropository'', asc ''q'']
        = ExecError (asc ''Command failed: mdfind -onlyin /Users/macbook/Documents/Dropository q'')"
      by (simp add: failingTool_def asc_def)
    have cat: "asc ''Spotlight search failed: '' @ asc ''Command failed: mdfind -onlyin [path] q''
        = asc ''Spotlight search failed: Command failed: mdfind -onlyin [path] q''"
      by (simp add: asc_def)
    show ?thesis
      unfolding spotlightSearch_def Let_def args msg
      by (simp only: exec_result.case sanitize_mdfind_message cat)
  qed
  from a b c show ?thesis
    by (intro conjI) assumption+
qed

end
